theory Spec2Isabelle
  imports Complex_Main
begin

section \<open>Water rate simulator: pricing and demand engine\<close>

text \<open>
  A shallow embedding of \<^verbatim>\<open>lib/demand.ts\<close>, of \<^verbatim>\<open>lib/montecarlo.ts\<close> and of
  \<^verbatim>\<open>computeDecileImpacts\<close> from \<^verbatim>\<open>lib/analytics.ts\<close>. The repository holds two copies of
  \<^verbatim>\<open>demand.ts\<close>. The one modelled in full is the one \<^verbatim>\<open>montecarlo.ts\<close> imports, with a
  \<^verbatim>\<open>solveUsage\<close> of six arguments; of the other one the solver is modelled beside it.

  Numbers. A TypeScript \<^verbatim>\<open>number\<close> is modelled as a \<^typ>\<open>real\<close>: arithmetic is exact, and
  there is no NaN and no infinity. Consequently \<^verbatim>\<open>Number.isFinite(x)\<close> is always true and
  \<^verbatim>\<open>x || 0\<close> is \<open>x\<close>. The one infinity the code itself introduces,
  \<^verbatim>\<open>tier.upper ?? Number.POSITIVE_INFINITY\<close>, is modelled by the \<open>None\<close> case of an
  optional real, with every comparison against it written out. Array lengths and loop
  counters are natural numbers.

  Record fields keep the names of the TypeScript interfaces; where two interfaces share a
  field name the field is written with its record's name in front.
\<close>

subsection \<open>Data model\<close>

record TierDefinition =
  lower :: real
  upper :: "real option"
  price :: real

record BaselineAnchor =
  usage :: real
  perceivedPrice :: real

record DemandInputs =
  connections :: real
  elasticity :: real
  baseFee :: real
  tiers :: "TierDefinition list"
  baseline :: "BaselineAnchor option"
  billSalience :: "real option"

record DemandTrace =
  perConnectionUsage :: real
  usageP5 :: "real option"
  usageP95 :: "real option"
  marginalPrice :: real
  averagePrice :: real
  perceivedPrice :: real
  billPerConnection :: real

record DemandResult =
  usageMG :: real
  revenue :: real
  volumetricBillPerConnection :: real
  trace :: DemandTrace
  warnings :: "string list"
  validationMessage :: "string option"
  tiersUsed :: "TierDefinition list"

record TierValidationResult =
  tiers :: "TierDefinition list"
  isValid :: bool
  message :: "string option"

text \<open>The anonymous object type returned by \<^verbatim>\<open>solveUsage\<close>.\<close>

record UsageSolution =
  usage :: real
  marginalPrice :: real
  averagePrice :: real
  perceivedPrice :: real

definition BASELINE_USAGE :: real where "BASELINE_USAGE = 7"
definition MIN_USAGE :: real where "MIN_USAGE = 0.1"
definition MAX_USAGE :: real where "MAX_USAGE = 60"
definition MIN_PRICE :: real where "MIN_PRICE = 0.01"
definition DEFAULT_ALPHA :: real where "DEFAULT_ALPHA = 0.7"
definition DEFAULT_BILL_SALIENCE :: real where "DEFAULT_BILL_SALIENCE = 0.05"
definition FIXED_POINT_ITERATIONS :: nat where "FIXED_POINT_ITERATIONS = 12"

subsection \<open>Tier normalisation and validation\<close>

text \<open>
  \<^verbatim>\<open>roundTo(value, decimals) = Number.parseFloat(value.toFixed(decimals))\<close>.
  \<^verbatim>\<open>toFixed\<close> rounds the magnitude to the nearest multiple of \<open>10^-decimals\<close>, the larger
  one on a tie, and keeps the sign. (For magnitudes of \<open>10^21\<close> and more \<^verbatim>\<open>toFixed\<close> prints
  the number itself; every double that large is an integer, which decimal rounding leaves
  unchanged as well.)
\<close>

definition roundTo :: "real \<Rightarrow> nat \<Rightarrow> real" where
  "roundTo v decimals =
     (if v < 0 then - (of_int \<lfloor>(- v) * 10 ^ decimals + 1 / 2\<rfloor> / 10 ^ decimals)
      else of_int \<lfloor>v * 10 ^ decimals + 1 / 2\<rfloor> / 10 ^ decimals)"

definition normalizeTier :: "TierDefinition \<Rightarrow> TierDefinition" where
  "normalizeTier tier =
     \<lparr>lower = max 0 (roundTo (lower tier) 4),
      upper = (case upper tier of None \<Rightarrow> None | Some u \<Rightarrow> Some (roundTo (max u 0) 4)),
      price = max 0 (roundTo (price tier) 6)\<rparr>"

text \<open>\<^verbatim>\<open>Array.prototype.sort\<close> is stable, as is \<^const>\<open>sort_key\<close>.\<close>

definition normalizeTiers :: "TierDefinition list \<Rightarrow> TierDefinition list" where
  "normalizeTiers ts = sort_key lower (map normalizeTier ts)"

definition createFallbackTier :: "TierDefinition list \<Rightarrow> TierDefinition list" where
  "createFallbackTier ts =
     (let fallbackPrice = (case ts of [] \<Rightarrow> 0 | t # _ \<Rightarrow> price t)
      in [\<lparr>lower = 0, upper = None, price = fallbackPrice\<rparr>])"

definition MSG_DEFINE_ONE :: string where
  "MSG_DEFINE_ONE = ''Define at least one tier.''"
definition MSG_CONTIGUOUS :: string where
  "MSG_CONTIGUOUS = ''Tiers must be contiguous with no gaps or overlaps.''"
definition MSG_UPPER_GREATER :: string where
  "MSG_UPPER_GREATER = ''Each tier's upper bound must be greater than its lower bound.''"
definition MSG_FINAL_INFINITE :: string where
  "MSG_FINAL_INFINITE = ''The final tier must extend to infinity.''"

text \<open>
  The \<^verbatim>\<open>for\<close> loop of \<^verbatim>\<open>validateTiers\<close>. The state is \<^verbatim>\<open>expectedLower\<close>, where \<open>None\<close>
  stands for \<^verbatim>\<open>Number.POSITIVE_INFINITY\<close> (then \<^verbatim>\<open>Math.abs(tier.lower - expectedLower)\<close> is
  infinite and exceeds the tolerance). The result is the message of the first failing
  check, or \<open>None\<close> when the loop runs to its end.
\<close>

fun validateLoop :: "real option \<Rightarrow> TierDefinition list \<Rightarrow> string option" where
  "validateLoop expectedLower [] = None"
| "validateLoop expectedLower (tier # rest) =
     (if (case expectedLower of None \<Rightarrow> True | Some e \<Rightarrow> \<bar>lower tier - e\<bar> > 1 / 10 ^ 6)
      then Some MSG_CONTIGUOUS
      else if (case upper tier of None \<Rightarrow> False | Some u \<Rightarrow> u \<le> lower tier)
      then Some MSG_UPPER_GREATER
      else validateLoop (upper tier) rest)"

definition validateTiers :: "TierDefinition list \<Rightarrow> TierValidationResult" where
  "validateTiers ts =
     (if length ts = 0 then
        \<lparr>tiers = createFallbackTier [\<lparr>lower = 0, upper = None, price = 0\<rparr>],
         isValid = False, message = Some MSG_DEFINE_ONE\<rparr>
      else case validateLoop (Some 0) ts of
        Some m \<Rightarrow> \<lparr>tiers = createFallbackTier ts, isValid = False, message = Some m\<rparr>
      | None \<Rightarrow>
          if upper (last ts) \<noteq> None then
            \<lparr>tiers = createFallbackTier ts, isValid = False, message = Some MSG_FINAL_INFINITE\<rparr>
          else \<lparr>tiers = ts, isValid = True, message = None\<rparr>)"

subsection \<open>Billing calculator\<close>

definition clampUsage :: "real \<Rightarrow> real" where
  "clampUsage v = min (max v MIN_USAGE) MAX_USAGE"

text \<open>The loop of \<^verbatim>\<open>computeMarginalPrice\<close>: the price of the first tier that contains the usage.\<close>

fun marginalLoop :: "real \<Rightarrow> TierDefinition list \<Rightarrow> real option" where
  "marginalLoop u [] = None"
| "marginalLoop u (tier # rest) =
     (if u \<ge> lower tier \<and> (case upper tier of None \<Rightarrow> True | Some up \<Rightarrow> u < up)
      then Some (price tier) else marginalLoop u rest)"

definition computeMarginalPrice :: "real \<Rightarrow> TierDefinition list \<Rightarrow> real" where
  "computeMarginalPrice u ts =
     (case marginalLoop u ts of
        Some p \<Rightarrow> p
      | None \<Rightarrow> (if ts = [] then 0 else price (last ts)))"

text \<open>
  The loop of \<^verbatim>\<open>computeVolumetricCharge\<close>, with the running \<^verbatim>\<open>charge\<close> as accumulator; each
  \<^verbatim>\<open>break\<close> returns it.
\<close>

fun chargeLoop :: "real \<Rightarrow> real \<Rightarrow> TierDefinition list \<Rightarrow> real" where
  "chargeLoop u charge [] = charge"
| "chargeLoop u charge (tier # rest) =
     (if u \<le> lower tier then charge
      else
        let span = (case upper tier of None \<Rightarrow> u | Some up \<Rightarrow> min u up) - lower tier;
            charge' = (if span > 0 then charge + span * price tier else charge)
        in if (case upper tier of None \<Rightarrow> True | Some up \<Rightarrow> u \<le> up) then charge'
           else chargeLoop u charge' rest)"

definition computeVolumetricCharge :: "real \<Rightarrow> TierDefinition list \<Rightarrow> real" where
  "computeVolumetricCharge u ts = chargeLoop u 0 ts"

definition computeAveragePrice :: "real \<Rightarrow> TierDefinition list \<Rightarrow> real" where
  "computeAveragePrice u ts =
     (if u \<le> 0 then 0 else computeVolumetricCharge u ts / u)"

subsection \<open>Perceived price and the equilibrium solver\<close>

text \<open>
  The two defaulted parameters \<^verbatim>\<open>alpha = DEFAULT_ALPHA\<close> and \<^verbatim>\<open>billSalience = 0\<close> are optional
  arguments: \<open>None\<close> is an omitted (or \<^verbatim>\<open>undefined\<close>) argument.
\<close>

definition computePerceivedPrice ::
  "real \<Rightarrow> TierDefinition list \<Rightarrow> real \<Rightarrow> real option \<Rightarrow> real option \<Rightarrow> real" where
  "computePerceivedPrice u ts fee alphaArg billSalienceArg =
     (let alpha = (case alphaArg of None \<Rightarrow> DEFAULT_ALPHA | Some a \<Rightarrow> a);
          salience = (case billSalienceArg of None \<Rightarrow> 0 | Some s \<Rightarrow> s);
          marginal = computeMarginalPrice u ts;
          average = computeAveragePrice u ts;
          blended = alpha * marginal + (1 - alpha) * average;
          baseImpact = salience * (fee / max u MIN_USAGE)
      in blended + baseImpact)"

text \<open>
  The fixed-point loop of \<^verbatim>\<open>solveUsage\<close>; the first argument counts the iterations that are
  left. \<^verbatim>\<open>Math.pow\<close> is \<^const>\<open>powr\<close>: its base here is a quotient of two prices that are both
  at least \<open>MIN_PRICE\<close>, hence positive.
\<close>

fun solveLoop ::
  "nat \<Rightarrow> real \<Rightarrow> TierDefinition list \<Rightarrow> real \<Rightarrow> real \<Rightarrow> real \<Rightarrow> real \<Rightarrow> real \<Rightarrow> real" where
  "solveLoop 0 e ts baselineUsageClamped referencePrice fee salience u = u"
| "solveLoop (Suc n) e ts baselineUsageClamped referencePrice fee salience u =
     (let perceived =
            max MIN_PRICE (computePerceivedPrice u ts fee (Some DEFAULT_ALPHA) (Some salience));
          nextUsage = clampUsage (baselineUsageClamped * (perceived / referencePrice) powr e)
      in if \<bar>nextUsage - u\<bar> < 0.0005 then nextUsage
         else solveLoop n e ts baselineUsageClamped referencePrice fee salience nextUsage)"

definition solveUsage ::
  "real \<Rightarrow> TierDefinition list \<Rightarrow> real \<Rightarrow> real \<Rightarrow> real \<Rightarrow> real \<Rightarrow> UsageSolution" where
  "solveUsage e ts baselineUsage baselinePrice fee salience =
     (let baselineUsageClamped = clampUsage baselineUsage;
          referencePrice = max MIN_PRICE baselinePrice;
          u = solveLoop FIXED_POINT_ITERATIONS e ts baselineUsageClamped referencePrice
                fee salience baselineUsageClamped
      in \<lparr>usage = u,
          marginalPrice = computeMarginalPrice u ts,
          averagePrice = computeAveragePrice u ts,
          perceivedPrice = computePerceivedPrice u ts fee (Some DEFAULT_ALPHA) (Some salience)\<rparr>)"

text \<open>
  \<^verbatim>\<open>src/lib/demand.ts\<close> holds a second copy of the module. Its tier and billing functions
  are word for word the ones above; its perceived price is the plain mean of marginal and
  average price, and its \<^verbatim>\<open>solveUsage\<close> takes four arguments and iterates up to 25 times.
\<close>

definition computePerceivedPrice_legacy :: "real \<Rightarrow> TierDefinition list \<Rightarrow> real" where
  "computePerceivedPrice_legacy u ts =
     (let marginal = computeMarginalPrice u ts;
          average = computeAveragePrice u ts
      in 0.5 * (marginal + average))"

fun solveLoop_legacy ::
  "nat \<Rightarrow> real \<Rightarrow> TierDefinition list \<Rightarrow> real \<Rightarrow> real \<Rightarrow> real \<Rightarrow> real" where
  "solveLoop_legacy 0 e ts baselineUsageClamped referencePrice u = u"
| "solveLoop_legacy (Suc n) e ts baselineUsageClamped referencePrice u =
     (let perceived = max MIN_PRICE (computePerceivedPrice_legacy u ts);
          nextUsage = clampUsage (baselineUsageClamped * (perceived / referencePrice) powr e)
      in if \<bar>nextUsage - u\<bar> < 0.0005 then nextUsage
         else solveLoop_legacy n e ts baselineUsageClamped referencePrice nextUsage)"

definition solveUsage_legacy ::
  "real \<Rightarrow> TierDefinition list \<Rightarrow> real \<Rightarrow> real \<Rightarrow> UsageSolution" where
  "solveUsage_legacy e ts baselineUsage baselinePrice =
     (let baselineUsageClamped = clampUsage baselineUsage;
          referencePrice = max MIN_PRICE baselinePrice;
          u = solveLoop_legacy 25 e ts baselineUsageClamped referencePrice baselineUsageClamped
      in \<lparr>usage = u,
          marginalPrice = computeMarginalPrice u ts,
          averagePrice = computeAveragePrice u ts,
          perceivedPrice = computePerceivedPrice_legacy u ts\<rparr>)"

subsection \<open>Single-point demand engine\<close>

text \<open>The minus signs of the elasticity warning are U+2212, written as their UTF-8 bytes.\<close>

definition MINUS_SIGN :: string where
  "MINUS_SIGN = [CHR 0xE2, CHR 0x88, CHR 0x92]"
definition MSG_ELASTICITY_SIGN :: string where
  "MSG_ELASTICITY_SIGN =
     ''Elasticity should be negative (e.g., '' @ MINUS_SIGN @ ''0.10 to '' @ MINUS_SIGN @ ''0.30).''"
definition MSG_USAGE_MIN :: string where
  "MSG_USAGE_MIN = ''Usage settled at the minimum bound. Check elasticity or price inputs.''"
definition MSG_USAGE_MAX :: string where
  "MSG_USAGE_MAX = ''Usage reached the maximum bound. Prices may be too low for this elasticity.''"

definition calculateDemand :: "DemandInputs \<Rightarrow> DemandResult" where
  "calculateDemand inputs =
     (let normalizedTiers = normalizeTiers (DemandInputs.tiers inputs);
          validation = validateTiers normalizedTiers;
          ts = TierValidationResult.tiers validation;
          e = DemandInputs.elasticity inputs;
          fee = max 0 (DemandInputs.baseFee inputs);
          conns = max 0 (DemandInputs.connections inputs);
          salience = (case DemandInputs.billSalience inputs of
                        None \<Rightarrow> DEFAULT_BILL_SALIENCE | Some s \<Rightarrow> s);
          baselineUsage = clampUsage (case baseline inputs of
                                        None \<Rightarrow> BASELINE_USAGE
                                      | Some b \<Rightarrow> BaselineAnchor.usage b);
          baselinePerceivedPrice =
            max MIN_PRICE
              (case baseline inputs of
                 None \<Rightarrow> computePerceivedPrice baselineUsage ts fee
                           (Some DEFAULT_ALPHA) (Some salience)
               | Some b \<Rightarrow> BaselineAnchor.perceivedPrice b);
          usageSolution = solveUsage e ts baselineUsage baselinePerceivedPrice fee salience;
          volumetric = computeVolumetricCharge (usage usageSolution) ts;
          bill = fee + volumetric;
          mg = conns * usage usageSolution / 1000;
          rev = bill * conns;
          ws = (if e \<ge> 0 then [MSG_ELASTICITY_SIGN] else []) @
               (if usage usageSolution \<le> MIN_USAGE + 1 / 10 ^ 3 then [MSG_USAGE_MIN]
                else if usage usageSolution \<ge> MAX_USAGE - 1 / 10 ^ 3 then [MSG_USAGE_MAX]
                else [])
      in \<lparr>usageMG = mg,
          revenue = rev,
          volumetricBillPerConnection = volumetric,
          trace =
            \<lparr>perConnectionUsage = usage usageSolution,
             usageP5 = Some (usage usageSolution),
             usageP95 = Some (usage usageSolution),
             DemandTrace.marginalPrice = marginalPrice usageSolution,
             DemandTrace.averagePrice = averagePrice usageSolution,
             DemandTrace.perceivedPrice = perceivedPrice usageSolution,
             billPerConnection = bill\<rparr>,
          warnings = ws,
          validationMessage =
            (if isValid validation then None else message validation),
          tiersUsed = ts\<rparr>)"

subsection \<open>Monte Carlo engine\<close>

definition ELASTICITY_STD :: real where "ELASTICITY_STD = 0.05"
definition ELASTICITY_MIN :: real where "ELASTICITY_MIN = - 0.4"
definition ELASTICITY_MAX :: real where "ELASTICITY_MAX = - 0.05"

record MonteCarloDraws =
  q0 :: "real list"
  eps :: "real list"

record MonteCarloParams =
  connections :: real
  baseFee :: real
  tiers :: "TierDefinition list"
  anchor :: BaselineAnchor
  draws :: MonteCarloDraws
  elasticityMean :: real
  usageVar :: real
  validationMessage :: "string option"
  billSalience :: real

text \<open>
  \<^verbatim>\<open>percentile\<close> is only called with \<open>p\<close> in \<open>{0.05, 0.5, 0.95}\<close> on a non-empty list, so both
  indices are within the list.
\<close>

definition percentile :: "real list \<Rightarrow> real \<Rightarrow> real" where
  "percentile sortedValues p =
     (if length sortedValues = 0 then 0
      else
        let position = (real (length sortedValues) - 1) * p;
            lowerIndex = \<lfloor>position\<rfloor>;
            upperIndex = \<lceil>position\<rceil>
        in if lowerIndex = upperIndex then sortedValues ! nat lowerIndex
           else
             let weight = position - of_int lowerIndex
             in sortedValues ! nat lowerIndex * (1 - weight)
                + sortedValues ! nat upperIndex * weight)"

definition clampElasticity :: "real \<Rightarrow> real" where
  "clampElasticity v = min (max v ELASTICITY_MIN) ELASTICITY_MAX"

definition buildUsageDraws :: "real \<Rightarrow> real \<Rightarrow> real list \<Rightarrow> real list" where
  "buildUsageDraws anchorUsage usageVariety seeds =
     (let sigma = max 0.01 usageVariety;
          mu = ln (max anchorUsage MIN_USAGE) - 0.5 * sigma * sigma
      in map (\<lambda>z. clampUsage (exp (mu + sigma * z))) seeds)"

text \<open>
  The arguments of one call of \<^verbatim>\<open>solveUsage\<close>. The sampling loop below keeps a log of the
  calls it makes (a ghost variable, not part of the returned value), so that properties of
  "every call of the solver" can be stated.
\<close>

record SolverCall =
  argElasticity :: real
  argTiers :: "TierDefinition list"
  argBaselineUsage :: real
  argBaselinePrice :: real
  argBaseFee :: real
  argBillSalience :: real

definition callSolver :: "SolverCall \<Rightarrow> UsageSolution" where
  "callSolver c =
     solveUsage (argElasticity c) (argTiers c) (argBaselineUsage c) (argBaselinePrice c)
       (argBaseFee c) (argBillSalience c)"

text \<open>The variables the sampling loop updates, and the log of solver calls.\<close>

record SampleState =
  usageSamples :: "real list"
  billSamples :: "real list"
  usageSum :: real
  billSum :: real
  solverCalls :: "SolverCall list"

definition sampleStep ::
  "MonteCarloParams \<Rightarrow> real list \<Rightarrow> SampleState \<Rightarrow> nat \<Rightarrow> SampleState" where
  "sampleStep params baselineUsages s i =
     (let e = clampElasticity (elasticityMean params + ELASTICITY_STD * eps (draws params) ! i);
          call = \<lparr>argElasticity = e, argTiers = tiers params,
                  argBaselineUsage = baselineUsages ! i,
                  argBaselinePrice = BaselineAnchor.perceivedPrice (anchor params),
                  argBaseFee = baseFee params,
                  argBillSalience = billSalience params\<rparr>;
          usageSolution = callSolver call;
          volumetric = computeVolumetricCharge (usage usageSolution) (tiers params);
          bill = baseFee params + volumetric
      in \<lparr>usageSamples = usageSamples s @ [usage usageSolution],
          billSamples = billSamples s @ [bill],
          usageSum = usageSum s + usage usageSolution,
          billSum = billSum s + bill,
          solverCalls = solverCalls s @ [call]\<rparr>)"

definition sampleLoop :: "MonteCarloParams \<Rightarrow> real list \<Rightarrow> nat \<Rightarrow> SampleState" where
  "sampleLoop params baselineUsages sampleCount =
     foldl (sampleStep params baselineUsages)
       \<lparr>usageSamples = [], billSamples = [], usageSum = 0, billSum = 0, solverCalls = []\<rparr>
       [0..<sampleCount]"

definition MSG_NO_BASELINE :: string where
  "MSG_NO_BASELINE = ''Baseline has not been established yet.''"
definition MSG_SOME_MIN :: string where
  "MSG_SOME_MIN = ''Some customers are hitting the minimum usage bound.''"
definition MSG_SOME_MAX :: string where
  "MSG_SOME_MAX = ''Some customers are hitting the maximum usage bound.''"

text \<open>
  \<^verbatim>\<open>runMonteCarloSimulation\<close>, returning its result together with the log of the solver calls
  made on the way.
\<close>

definition runMonteCarloLogged :: "MonteCarloParams \<Rightarrow> DemandResult \<times> SolverCall list" where
  "runMonteCarloLogged params =
     (let sampleCount = min (length (q0 (draws params))) (length (eps (draws params)))
      in if sampleCount = 0 then
           (\<lparr>usageMG = 0, revenue = 0, volumetricBillPerConnection = 0,
             trace =
               \<lparr>perConnectionUsage = 0, usageP5 = Some 0, usageP95 = Some 0,
                DemandTrace.marginalPrice = 0, DemandTrace.averagePrice = 0,
                DemandTrace.perceivedPrice = 0, billPerConnection = baseFee params\<rparr>,
             warnings = [MSG_NO_BASELINE],
             DemandResult.validationMessage = validationMessage params,
             tiersUsed = tiers params\<rparr>, [])
         else
           let baselineUsages =
                 buildUsageDraws (BaselineAnchor.usage (anchor params)) (usageVar params)
                   (q0 (draws params));
               s = sampleLoop params baselineUsages sampleCount;
               weight = connections params / real sampleCount;
               mg = usageSum s * weight / 1000;
               rev = billSum s * weight;
               sortedUsage = sort (usageSamples s);
               sortedBills = sort (billSamples s);
               p5 = percentile sortedUsage 0.05;
               usageMedian = percentile sortedUsage 0.5;
               p95 = percentile sortedUsage 0.95;
               billMedian = percentile sortedBills 0.5;
               marginal = computeMarginalPrice usageMedian (tiers params);
               average = computeAveragePrice usageMedian (tiers params);
               perceived = computePerceivedPrice usageMedian (tiers params) (baseFee params)
                             None (Some (billSalience params));
               ws = (if elasticityMean params \<ge> 0 then [MSG_ELASTICITY_SIGN] else []) @
                    (if p5 \<le> MIN_USAGE + 1 / 10 ^ 3 then [MSG_SOME_MIN] else []) @
                    (if p95 \<ge> MAX_USAGE - 1 / 10 ^ 3 then [MSG_SOME_MAX] else [])
           in (\<lparr>usageMG = mg, revenue = rev,
                volumetricBillPerConnection = max (billMedian - baseFee params) 0,
                trace =
                  \<lparr>perConnectionUsage = usageMedian, usageP5 = Some p5, usageP95 = Some p95,
                   DemandTrace.marginalPrice = marginal, DemandTrace.averagePrice = average,
                   DemandTrace.perceivedPrice = perceived, billPerConnection = billMedian\<rparr>,
                warnings = ws,
                DemandResult.validationMessage = validationMessage params,
                tiersUsed = tiers params\<rparr>, solverCalls s))"

definition runMonteCarloSimulation :: "MonteCarloParams \<Rightarrow> DemandResult" where
  "runMonteCarloSimulation params = fst (runMonteCarloLogged params)"

subsection \<open>Decile impacts\<close>

record DecileImpact =
  decile :: string
  deltaMG :: real
  pctOfTotal :: real

text \<open>Decimal rendering of a natural number, for the template string \<^verbatim>\<open>`D${idx + 1}`\<close>.\<close>

fun digits :: "nat \<Rightarrow> string" where
  "digits n =
     (if n < 10 then [char_of (48 + n)]
      else digits (n div 10) @ [char_of (48 + n mod 10)])"

definition decileLabel :: "nat \<Rightarrow> string" where
  "decileLabel idx = ''D'' @ digits (idx + 1)"

text \<open>
  One round of the outer loop of \<^verbatim>\<open>computeDecileImpacts\<close>; the inner loop adds up the
  differences of the samples at positions \<open>start..<end\<close> of the sorted index array. The
  state is the pair of \<^verbatim>\<open>impacts\<close> and \<^verbatim>\<open>totalDeltaMG\<close>.
\<close>

definition decileStep ::
  "real list \<Rightarrow> real list \<Rightarrow> nat list \<Rightarrow> nat \<Rightarrow> real \<Rightarrow>
   DecileImpact list \<times> real \<Rightarrow> nat \<Rightarrow> DecileImpact list \<times> real" where
  "decileStep q0s q1s indices sampleCount weight st d =
     (let start = (d * sampleCount) div 10;
          end = ((d + 1) * sampleCount) div 10;
          decileDelta =
            foldl (\<lambda>acc idx. acc + (q1s ! (indices ! idx) - q0s ! (indices ! idx))) 0
              [start..<end];
          delta = decileDelta * weight
      in (fst st @ [\<lparr>decile = decileLabel d, deltaMG = delta, pctOfTotal = 0\<rparr>],
          snd st + delta))"

definition computeDecileImpacts :: "real list \<Rightarrow> real list \<Rightarrow> real \<Rightarrow> DecileImpact list" where
  "computeDecileImpacts q0s q1s conns =
     (let sampleCount = min (length q0s) (length q1s)
      in if sampleCount = 0 \<or> conns = 0 then
           map (\<lambda>idx. \<lparr>decile = decileLabel idx, deltaMG = 0, pctOfTotal = 0\<rparr>) [0..<10]
         else
           let indices = sort_key (\<lambda>a. q0s ! a) [0..<sampleCount];
               weight = conns / real sampleCount / 1000;
               st = foldl (decileStep q0s q1s indices sampleCount weight) ([], 0) [0..<10];
               denominator = (if snd st = 0 then 1 else snd st)
           in map (\<lambda>impact. impact\<lparr>pctOfTotal := deltaMG impact / denominator\<rparr>) (fst st))"

section \<open>The specification's vocabulary\<close>

text \<open>
  The predicates below are written from the words of the specification, not from the
  code; the theorems compare them with the code.

  The Tier Set invariants of the data model: (i) sorted ascending by \<open>lower\<close>;
  (ii) contiguous, each tier's \<open>lower\<close> equal to the previous tier's \<open>upper\<close> and the first
  tier's \<open>lower\<close> equal to \<open>0\<close>; (iii) every finite \<open>upper\<close> strictly above its \<open>lower\<close>;
  (iv) exactly the last tier unbounded. After an unbounded tier no \<open>lower\<close> can equal the
  previous \<open>upper\<close>, so contiguity allows an unbounded tier only at the end. The data
  model grants contiguity a tolerance of \<open>10^-6\<close>; \<open>contiguousFrom\<close> is contiguity without
  it, \<open>contiguousWithin\<close> further down is contiguity with it.
\<close>

definition sortedByLower :: "TierDefinition list \<Rightarrow> bool" where
  "sortedByLower ts = sorted (map lower ts)"

fun contiguousFrom :: "real \<Rightarrow> TierDefinition list \<Rightarrow> bool" where
  "contiguousFrom e [] = True"
| "contiguousFrom e (t # rest) =
     (lower t = e \<and> (case upper t of None \<Rightarrow> rest = [] | Some up \<Rightarrow> contiguousFrom up rest))"

definition upperExceedsLower :: "TierDefinition list \<Rightarrow> bool" where
  "upperExceedsLower ts =
     list_all (\<lambda>t. case upper t of None \<Rightarrow> True | Some up \<Rightarrow> lower t < up) ts"

definition lastUnbounded :: "TierDefinition list \<Rightarrow> bool" where
  "lastUnbounded ts =
     (ts \<noteq> [] \<and> upper (last ts) = None \<and> list_all (\<lambda>t. upper t \<noteq> None) (butlast ts))"

definition tierSetInvariants :: "TierDefinition list \<Rightarrow> bool" where
  "tierSetInvariants ts =
     (sortedByLower ts \<and> contiguousFrom 0 ts \<and> upperExceedsLower ts \<and> lastUnbounded ts)"

text \<open>
  A gap or an overlap between two neighbouring tiers, beyond the tolerance of \<open>10^-6\<close> that
  the data model grants to contiguity. A tier that is unbounded but not the last one
  overlaps its successor.
\<close>

fun hasGap :: "TierDefinition list \<Rightarrow> bool" where
  "hasGap (a # b # rest) =
     ((case upper a of None \<Rightarrow> False | Some up \<Rightarrow> lower b - up > 1 / 10 ^ 6)
      \<or> hasGap (b # rest))"
| "hasGap _ = False"

fun hasOverlap :: "TierDefinition list \<Rightarrow> bool" where
  "hasOverlap (a # b # rest) =
     ((case upper a of None \<Rightarrow> True | Some up \<Rightarrow> up - lower b > 1 / 10 ^ 6)
      \<or> hasOverlap (b # rest))"
| "hasOverlap _ = False"

text \<open>A gap or an overlap of any size: a tier that does not start where its predecessor ends.\<close>

fun hasAnyGapOrOverlap :: "TierDefinition list \<Rightarrow> bool" where
  "hasAnyGapOrOverlap (a # b # rest) =
     ((case upper a of None \<Rightarrow> True | Some up \<Rightarrow> lower b \<noteq> up)
      \<or> hasAnyGapOrOverlap (b # rest))"
| "hasAnyGapOrOverlap _ = False"

definition finiteLastTier :: "TierDefinition list \<Rightarrow> bool" where
  "finiteLastTier ts = (ts \<noteq> [] \<and> upper (last ts) \<noteq> None)"

text \<open>Contiguity up to the tolerance, starting from an expected lower bound.\<close>

fun contiguousWithin :: "real option \<Rightarrow> TierDefinition list \<Rightarrow> bool" where
  "contiguousWithin e [] = True"
| "contiguousWithin e (t # rest) =
     ((case e of None \<Rightarrow> False | Some x \<Rightarrow> \<bar>lower t - x\<bar> \<le> 1 / 10 ^ 6)
      \<and> contiguousWithin (upper t) rest)"

text \<open>Invariants (ii) up to the tolerance, (iii) and (iv).\<close>

definition checkedInvariants :: "TierDefinition list \<Rightarrow> bool" where
  "checkedInvariants ts =
     (contiguousWithin (Some 0) ts \<and> upperExceedsLower ts \<and> lastUnbounded ts)"

text \<open>
  A valid Tier Set whose contiguity is exact: the invariants above, without the tolerance,
  on tiers whose \<open>lower\<close> and \<open>price\<close> are non-negative, as the data model requires of a
  Tier.
\<close>

definition validTierSet :: "TierDefinition list \<Rightarrow> bool" where
  "validTierSet ts =
     (tierSetInvariants ts \<and> list_all (\<lambda>t. 0 \<le> lower t \<and> 0 \<le> price t) ts)"

text \<open>
  What \<^verbatim>\<open>normalizeTiers\<close> leaves behind: bounds that are multiples of \<open>10^-4\<close>, and
  non-negative lower bounds and prices.
\<close>

definition onGrid :: "real \<Rightarrow> bool" where
  "onGrid x = (x * 10 ^ 4 = of_int \<lfloor>x * 10 ^ 4\<rfloor>)"

definition roundedTier :: "TierDefinition \<Rightarrow> bool" where
  "roundedTier t =
     (onGrid (lower t) \<and> 0 \<le> lower t \<and> 0 \<le> price t
      \<and> (case upper t of None \<Rightarrow> True | Some up \<Rightarrow> onGrid up))"

text \<open>
  The answer to a rejected list: one unbounded tier from \<open>0\<close>, priced like the first tier
  of the list (zero for the empty list), \<open>isValid = false\<close> and the message \<open>m\<close>.
\<close>

definition rejection :: "TierDefinition list \<Rightarrow> string \<Rightarrow> TierValidationResult" where
  "rejection ts m =
     \<lparr>TierValidationResult.tiers =
        [\<lparr>lower = 0, upper = None, price = (case ts of [] \<Rightarrow> 0 | t # _ \<Rightarrow> price t)\<rparr>],
      isValid = False, message = Some m\<rparr>"

text \<open>
  The billing integral as the specification words it: each tier adds
  \<open>price \<times> max(0, min(usage, upper) - lower)\<close>.
\<close>

definition bandCharge :: "real \<Rightarrow> TierDefinition \<Rightarrow> real" where
  "bandCharge u t =
     price t * max 0 ((case upper t of None \<Rightarrow> u | Some up \<Rightarrow> min u up) - lower t)"

text \<open>
  The width of a bounded tier; tier \<open>k\<close> is active at a usage that lies within its bounds;
  the charge of the fully covered tiers below the active one plus the partial term.
\<close>

definition tierWidth :: "TierDefinition \<Rightarrow> real" where
  "tierWidth t = (case upper t of None \<Rightarrow> 0 | Some up \<Rightarrow> up - lower t)"

definition activeTier :: "TierDefinition list \<Rightarrow> nat \<Rightarrow> real \<Rightarrow> bool" where
  "activeTier ts k u =
     (k < length ts \<and> lower (ts ! k) \<le> u
      \<and> (case upper (ts ! k) of None \<Rightarrow> True | Some up \<Rightarrow> u \<le> up))"

definition progressiveCharge :: "TierDefinition list \<Rightarrow> nat \<Rightarrow> real \<Rightarrow> real" where
  "progressiveCharge ts k u =
     sum_list (map (\<lambda>t. price t * tierWidth t) (take k ts))
     + price (ts ! k) * (u - lower (ts ! k))"

text \<open>
  Tier \<open>i\<close> offends when it breaks one of the four invariants: it is out of order (i), it
  does not start where its predecessor ends, or at \<open>0\<close> for the first tier (ii, up to the
  tolerance), its finite \<open>upper\<close> does not exceed its \<open>lower\<close> (iii), or it is unbounded
  without being last or last without being unbounded (iv). A list violates an invariant
  when it has no tier or has an offending tier; "the first offending tier's price (or
  zero)" is read off the first such index.
\<close>

definition offendingAt :: "TierDefinition list \<Rightarrow> nat \<Rightarrow> bool" where
  "offendingAt ts i =
     ((i > 0 \<and> lower (ts ! i) < lower (ts ! (i - 1)))
      \<or> (if i = 0 then \<bar>lower (ts ! i) - 0\<bar> > 1 / 10 ^ 6
          else (case upper (ts ! (i - 1)) of
                  None \<Rightarrow> True
                | Some up \<Rightarrow> \<bar>lower (ts ! i) - up\<bar> > 1 / 10 ^ 6))
      \<or> (case upper (ts ! i) of None \<Rightarrow> False | Some up \<Rightarrow> up \<le> lower (ts ! i))
      \<or> ((upper (ts ! i) = None) \<noteq> (i = length ts - 1)))"

definition violatesInvariant :: "TierDefinition list \<Rightarrow> bool" where
  "violatesInvariant ts = (ts = [] \<or> list_ex (offendingAt ts) [0..<length ts])"

definition firstOffendingPrice :: "TierDefinition list \<Rightarrow> real" where
  "firstOffendingPrice ts =
     (case find (offendingAt ts) [0..<length ts] of
        None \<Rightarrow> 0
      | Some i \<Rightarrow> price (ts ! i))"

text \<open>
  A Tier Set that is valid with the tolerance of the data model: no tier offends, and
  lower bounds and prices are non-negative. The charge as a function of the usage.
\<close>

definition tolerantTierSet :: "TierDefinition list \<Rightarrow> bool" where
  "tolerantTierSet ts =
     (\<not> violatesInvariant ts \<and> list_all (\<lambda>t. 0 \<le> lower t \<and> 0 \<le> price t) ts)"

definition chargeCurve :: "TierDefinition list \<Rightarrow> real \<Rightarrow> real" where
  "chargeCurve ts u = computeVolumetricCharge u ts"

text \<open>
  The total usage delta of two populations: the sum over all individuals of proposal
  usage minus baseline usage.
\<close>

definition totalUsageDelta :: "real list \<Rightarrow> real list \<Rightarrow> real" where
  "totalUsageDelta q0s q1s = sum_list (map2 (\<lambda>before after. after - before) q0s q1s)"

subsection \<open>Example inputs\<close>

text \<open>The tiers of the specification's example: 0-5 at 3.50, 5-10 at 4.25, 10 and up at 5.00.\<close>

definition exampleTiers :: "TierDefinition list" where
  "exampleTiers =
     [\<lparr>lower = 0, upper = Some 5, price = 3.5\<rparr>,
      \<lparr>lower = 5, upper = Some 10, price = 4.25\<rparr>,
      \<lparr>lower = 10, upper = None, price = 5\<rparr>]"

text \<open>A tier list with a gap between 5 and 7.\<close>

definition gapTiers :: "TierDefinition list" where
  "gapTiers =
     [\<lparr>lower = 0, upper = Some 5, price = 3.5\<rparr>,
      \<lparr>lower = 7, upper = None, price = 5\<rparr>]"

text \<open>
  Two tiers within the tolerance of each other and of \<open>0\<close>, the second starting below the
  first.
\<close>

definition driftTiers :: "TierDefinition list" where
  "driftTiers =
     [\<lparr>lower = 5 / 10 ^ 7, upper = Some (6 / 10 ^ 7), price = 1\<rparr>,
      \<lparr>lower = 1 / 10 ^ 7, upper = None, price = 2\<rparr>]"

text \<open>
  Two tiers that overlap by \<open>5 \<times> 10^-7\<close>, within the tolerance: the second starts just below
  the upper bound of the first.
\<close>

definition overlapTiers :: "TierDefinition list" where
  "overlapTiers =
     [\<lparr>lower = 0, upper = Some 5, price = 3.5\<rparr>,
      \<lparr>lower = 5 - 5 / 10 ^ 7, upper = None, price = 5\<rparr>]"

text \<open>One synthetic customer, with a non-negative mean elasticity.\<close>

definition oneSampleParams :: MonteCarloParams where
  "oneSampleParams =
     \<lparr>connections = 1000, baseFee = 25, tiers = exampleTiers,
      anchor = \<lparr>BaselineAnchor.usage = 7, BaselineAnchor.perceivedPrice = 4.16\<rparr>,
      draws = \<lparr>q0 = [0], eps = [1]\<rparr>,
      elasticityMean = 0.3, usageVar = 0.4, validationMessage = None, billSalience = 0.05\<rparr>"

text \<open>The same parameters before a baseline is frozen: one draw array is still empty.\<close>

definition noBaselineParams :: MonteCarloParams where
  "noBaselineParams = oneSampleParams\<lparr>draws := \<lparr>q0 = [], eps = [1]\<rparr>\<rparr>"

section \<open>Tier validation\<close>

lemma msgs_nonempty:
  "MSG_DEFINE_ONE \<noteq> []" "MSG_CONTIGUOUS \<noteq> []"
  "MSG_UPPER_GREATER \<noteq> []" "MSG_FINAL_INFINITE \<noteq> []"
  by (simp_all add: MSG_DEFINE_ONE_def MSG_CONTIGUOUS_def MSG_UPPER_GREATER_def
        MSG_FINAL_INFINITE_def)

lemma validateLoop_Some_nonempty: "validateLoop eo ts = Some m \<Longrightarrow> m \<noteq> []"
  by (induction eo ts rule: validateLoop.induct) (auto simp: msgs_nonempty split: if_splits)

text \<open>The loop finds no fault exactly when contiguity (up to the tolerance) and (iii) hold.\<close>

lemma validateLoop_None_iff:
  "validateLoop eo ts = None \<longleftrightarrow> contiguousWithin eo ts \<and> upperExceedsLower ts"
  by (induction eo ts rule: validateLoop.induct)
     (auto simp: upperExceedsLower_def split: option.splits)

lemma validateLoop_after_unbounded: "ts \<noteq> [] \<Longrightarrow> validateLoop None ts \<noteq> None"
  by (cases ts) simp_all

lemma lastUnbounded_of_loop:
  "validateLoop eo ts = None \<Longrightarrow> ts \<noteq> [] \<Longrightarrow> upper (last ts) = None \<Longrightarrow>
   list_all (\<lambda>t. upper t \<noteq> None) (butlast ts)"
proof (induction eo ts rule: validateLoop.induct)
  case (1 expectedLower)
  then show ?case by simp
next
  case (2 expectedLower tier rest)
  show ?case
  proof (cases "rest = []")
    case True
    then show ?thesis by simp
  next
    case False
    from "2.prems"(1) have loop: "validateLoop (upper tier) rest = None"
      by (simp split: if_splits)
    have "upper tier \<noteq> None"
    proof
      assume "upper tier = None"
      with loop have "validateLoop None rest = None" by simp
      with validateLoop_after_unbounded [OF False] show False by simp
    qed
    moreover have "list_all (\<lambda>t. upper t \<noteq> None) (butlast rest)"
      using "2.IH" loop False "2.prems"(1,3) by (auto split: if_splits)
    ultimately show ?thesis using False by simp
  qed
qed

lemma isValid_iff: "isValid (validateTiers ts) \<longleftrightarrow> checkedInvariants ts"
proof (cases "ts = []")
  case True
  then show ?thesis by (simp add: validateTiers_def checkedInvariants_def lastUnbounded_def)
next
  case False
  show ?thesis
  proof (cases "validateLoop (Some 0) ts")
    case None
    with False lastUnbounded_of_loop [OF None False] show ?thesis
      using validateLoop_None_iff [of "Some 0" ts]
      by (auto simp add: validateTiers_def checkedInvariants_def lastUnbounded_def)
  next
    case (Some m)
    with False show ?thesis
      using validateLoop_None_iff [of "Some 0" ts]
      by (auto simp add: validateTiers_def checkedInvariants_def)
  qed
qed

text \<open>What a rejection looks like, and what an acceptance looks like.\<close>

lemma rejected_shape:
  assumes "\<not> isValid (validateTiers ts)"
  shows "\<exists>m. m \<noteq> [] \<and> validateTiers ts =
           \<lparr>TierValidationResult.tiers =
              [\<lparr>lower = 0, upper = None, price = (case ts of [] \<Rightarrow> 0 | t # _ \<Rightarrow> price t)\<rparr>],
            isValid = False, message = Some m\<rparr>"
proof (cases "ts = []")
  case True
  then show ?thesis by (simp add: validateTiers_def createFallbackTier_def msgs_nonempty)
next
  case False
  show ?thesis
  proof (cases "validateLoop (Some 0) ts")
    case None
    with False assms show ?thesis
      by (auto simp add: validateTiers_def createFallbackTier_def msgs_nonempty
            split: if_splits)
  next
    case (Some m)
    with False validateLoop_Some_nonempty [OF Some] show ?thesis
      by (simp add: validateTiers_def createFallbackTier_def)
  qed
qed

lemma accepted_shape:
  "isValid (validateTiers ts) \<Longrightarrow>
   validateTiers ts = \<lparr>TierValidationResult.tiers = ts, isValid = True, message = None\<rparr>"
  by (auto simp add: validateTiers_def split: if_splits option.splits)

lemma gap_overlap_not_within:
  "hasGap ts \<or> hasOverlap ts \<Longrightarrow> \<not> contiguousWithin eo ts"
proof (induction ts arbitrary: eo rule: hasGap.induct)
  case (1 a b rest)
  show ?case
  proof (cases "hasGap (b # rest) \<or> hasOverlap (b # rest)")
    case True
    from "1.IH" [OF True, of "upper a"] show ?thesis by simp
  next
    case False
    with "1.prems"
    have "case upper a of None \<Rightarrow> True | Some up \<Rightarrow> \<bar>lower b - up\<bar> > 1 / 10 ^ 6"
      by (auto split: option.splits)
    then have "\<not> contiguousWithin (upper a) (b # rest)"
      by (auto split: option.splits)
    then show ?thesis by simp
  qed
qed simp_all

lemma exact_within: "contiguousFrom e ts \<Longrightarrow> contiguousWithin (Some e) ts"
  by (induction ts arbitrary: e) (auto split: option.splits)

text \<open>A chain of contiguous tiers ascends from its starting point.\<close>

lemma chain_lower_ge:
  "contiguousFrom e ts \<Longrightarrow> upperExceedsLower ts \<Longrightarrow> t \<in> set ts \<Longrightarrow> e \<le> lower t"
proof (induction ts arbitrary: e)
  case Nil
  then show ?case by simp
next
  case (Cons a rest)
  show ?case
  proof (cases "t = a")
    case True
    with Cons.prems show ?thesis by simp
  next
    case False
    with Cons.prems have mem: "t \<in> set rest" by simp
    then have "rest \<noteq> []" by auto
    with Cons.prems obtain up where up: "upper a = Some up" "contiguousFrom up rest" "lower a < up" "lower a = e"
      by (cases "upper a") (auto simp: upperExceedsLower_def)
    from Cons.prems have "upperExceedsLower rest" by (simp add: upperExceedsLower_def)
    from Cons.IH [OF up(2) this mem] up show ?thesis by simp
  qed
qed

lemma normalizeTiers_sorted: "sortedByLower (normalizeTiers raw)"
  by (simp add: normalizeTiers_def sortedByLower_def)

subsection \<open>Validated tier lists are valid Tier Sets\<close>

text \<open>
  \<^verbatim>\<open>calculateDemand\<close> and the user interface call \<^verbatim>\<open>validateTiers\<close> on the result of
  \<^verbatim>\<open>normalizeTiers\<close>. Two bounds on the \<open>10^-4\<close> grid that agree up to \<open>10^-6\<close> are equal, so
  what validation accepts there is exactly contiguous, and what it hands out (the accepted
  list or the fallback) is a valid Tier Set.
\<close>

lemma onGrid_iff: "onGrid x \<longleftrightarrow> (\<exists>k::int. x = of_int k / 10 ^ 4)"
proof
  assume "onGrid x"
  then have "x = of_int \<lfloor>x * 10 ^ 4\<rfloor> / 10 ^ 4"
    by (simp add: onGrid_def field_simps)
  then show "\<exists>k::int. x = of_int k / 10 ^ 4" ..
next
  assume "\<exists>k::int. x = of_int k / 10 ^ 4"
  then obtain k :: int where "x = of_int k / 10 ^ 4" ..
  then show "onGrid x" by (simp add: onGrid_def)
qed

lemma roundTo_onGrid: "onGrid (roundTo v 4)"
proof (cases "v < 0")
  case True
  then have "roundTo v 4 = of_int (- \<lfloor>(- v) * 10 ^ 4 + 1 / 2\<rfloor>) / 10 ^ 4"
    by (simp add: roundTo_def)
  then show ?thesis unfolding onGrid_iff by blast
next
  case False
  then have "roundTo v 4 = of_int \<lfloor>v * 10 ^ 4 + 1 / 2\<rfloor> / 10 ^ 4"
    by (simp add: roundTo_def)
  then show ?thesis unfolding onGrid_iff by blast
qed

lemma onGrid_zero: "onGrid 0"
  by (simp add: onGrid_def)

lemma onGrid_max: "onGrid x \<Longrightarrow> onGrid (max 0 x)"
  by (simp add: max_def onGrid_zero)

lemma normalizeTier_rounded: "roundedTier (normalizeTier t)"
  by (cases "upper t")
     (simp_all add: roundedTier_def normalizeTier_def onGrid_max roundTo_onGrid)

lemma normalizeTiers_rounded: "list_all roundedTier (normalizeTiers raw)"
  by (simp add: normalizeTiers_def list_all_iff normalizeTier_rounded)

lemma grid_close:
  assumes "onGrid a" "onGrid b" "\<bar>a - b\<bar> \<le> 1 / 10 ^ 6"
  shows "a = b"
proof -
  from assms obtain k m :: int where a: "a = of_int k / 10 ^ 4" and b: "b = of_int m / 10 ^ 4"
    unfolding onGrid_iff by blast
  have "\<bar>a - b\<bar> * 10 ^ 4 \<le> 1 / 10 ^ 6 * 10 ^ 4"
    using assms(3) by (intro mult_right_mono) simp_all
  moreover have "\<bar>a - b\<bar> * 10 ^ 4 = \<bar>of_int (k - m)\<bar>"
    by (simp add: a b abs_if field_simps)
  ultimately have "\<bar>real_of_int (k - m)\<bar> < 1" by simp
  then have "\<bar>k - m\<bar> < 1" by linarith
  then have "k = m" by simp
  with a b show ?thesis by simp
qed

lemma within_exact:
  "list_all roundedTier ts \<Longrightarrow> onGrid e \<Longrightarrow> contiguousWithin (Some e) ts \<Longrightarrow>
   contiguousFrom e ts"
proof (induction ts arbitrary: e)
  case Nil
  then show ?case by simp
next
  case (Cons t rest)
  from Cons.prems(1) have "onGrid (lower t)" by (simp add: roundedTier_def)
  moreover from Cons.prems(3) have "\<bar>lower t - e\<bar> \<le> 1 / 10 ^ 6" by simp
  ultimately have low: "lower t = e" using Cons.prems(2) by (intro grid_close)
  show ?case
  proof (cases "upper t")
    case None
    with Cons.prems have "rest = []" by (cases rest) simp_all
    with low None show ?thesis by simp
  next
    case (Some up)
    from Cons.prems(1) have t: "roundedTier t" and rest: "list_all roundedTier rest"
      by simp_all
    from t Some have up: "onGrid up" by (simp add: roundedTier_def)
    from Cons.prems(3) Some have "contiguousWithin (Some up) rest" by simp
    from Cons.IH [OF rest up this] low Some show ?thesis by simp
  qed
qed

lemma chain_sorted:
  "contiguousFrom e ts \<Longrightarrow> upperExceedsLower ts \<Longrightarrow> sorted (map lower ts)"
proof (induction ts arbitrary: e)
  case Nil
  then show ?case by simp
next
  case (Cons t rest)
  from Cons.prems have rest_ok: "upperExceedsLower rest" by (simp add: upperExceedsLower_def)
  show ?case
  proof (cases "upper t")
    case None
    with Cons.prems show ?thesis by simp
  next
    case (Some up)
    with Cons.prems have chain: "contiguousFrom up rest" and lt: "lower t < up"
      by (simp_all add: upperExceedsLower_def)
    have "\<And>r. r \<in> set rest \<Longrightarrow> lower t \<le> lower r"
      using chain_lower_ge [OF chain rest_ok] lt by force
    with Cons.IH [OF chain rest_ok] show ?thesis by auto
  qed
qed

lemma rounded_checked_valid:
  assumes "list_all roundedTier ts" "checkedInvariants ts"
  shows "validTierSet ts"
proof -
  from assms have chain: "contiguousFrom 0 ts"
    by (intro within_exact) (simp_all add: checkedInvariants_def onGrid_zero)
  moreover from assms(2) have "upperExceedsLower ts" "lastUnbounded ts"
    by (simp_all add: checkedInvariants_def)
  moreover from chain_sorted [OF chain this(1)] have "sortedByLower ts"
    by (simp add: sortedByLower_def)
  moreover from assms(1) have "list_all (\<lambda>t. 0 \<le> lower t \<and> 0 \<le> price t) ts"
    by (simp add: list_all_iff roundedTier_def)
  ultimately show ?thesis by (simp add: validTierSet_def tierSetInvariants_def)
qed

lemma validated_tier_set_valid:
  "isValid (validateTiers (normalizeTiers raw)) \<Longrightarrow> validTierSet (normalizeTiers raw)"
  by (simp add: isValid_iff rounded_checked_valid normalizeTiers_rounded)

lemma validation_output_valid:
  "validTierSet (TierValidationResult.tiers (validateTiers (normalizeTiers raw)))"
proof (cases "isValid (validateTiers (normalizeTiers raw))")
  case True
  with validated_tier_set_valid [OF True] accepted_shape [OF True] show ?thesis by simp
next
  case False
  from rejected_shape [OF False] obtain m where
    shape: "TierValidationResult.tiers (validateTiers (normalizeTiers raw)) =
       [\<lparr>lower = 0, upper = None,
         price = (case normalizeTiers raw of [] \<Rightarrow> 0 | t # _ \<Rightarrow> price t)\<rparr>]"
    by auto
  have "0 \<le> (case normalizeTiers raw of [] \<Rightarrow> 0 | t # _ \<Rightarrow> price t)"
    using normalizeTiers_rounded [of raw]
    by (cases "normalizeTiers raw") (simp_all add: roundedTier_def)
  with shape show ?thesis
    by (simp add: validTierSet_def tierSetInvariants_def sortedByLower_def
          upperExceedsLower_def lastUnbounded_def)
qed

lemma calculateDemand_tiers_valid: "validTierSet (tiersUsed (calculateDemand inputs))"
  using validation_output_valid [of "DemandInputs.tiers inputs"]
  by (simp add: calculateDemand_def Let_def)

lemma any_gap_not_chain: "hasAnyGapOrOverlap ts \<Longrightarrow> \<not> contiguousFrom e ts"
proof (induction ts arbitrary: e rule: hasAnyGapOrOverlap.induct)
  case (1 a b rest)
  show ?case
  proof (cases "upper a")
    case None
    then show ?thesis by simp
  next
    case (Some up)
    show ?thesis
    proof (cases "lower b = up")
      case True
      with "1.prems" Some have "hasAnyGapOrOverlap (b # rest)" by simp
      from "1.IH" [OF this, of up] Some show ?thesis by simp
    next
      case False
      with Some show ?thesis by simp
    qed
  qed
qed simp_all

lemma normalized_gap_rejected:
  assumes "hasAnyGapOrOverlap (normalizeTiers raw)"
  shows "\<not> checkedInvariants (normalizeTiers raw)"
proof
  assume "checkedInvariants (normalizeTiers raw)"
  with normalizeTiers_rounded [of raw] have "validTierSet (normalizeTiers raw)"
    by (intro rounded_checked_valid)
  then have "contiguousFrom 0 (normalizeTiers raw)"
    by (simp add: validTierSet_def tierSetInvariants_def)
  with any_gap_not_chain [OF assms] show False by simp
qed

lemma normalize_gapTiers: "normalizeTiers gapTiers = gapTiers"
  by (simp add: normalizeTiers_def normalizeTier_def roundTo_def gapTiers_def)

text \<open>
  Claim C3 (tier validation round-trip). A tier list that starts at \<open>lower = 0\<close>, is
  contiguous and ascending, has every finite \<open>upper\<close> strictly above its \<open>lower\<close> and has
  exactly its last tier unbounded is returned unchanged with \<open>isValid = true\<close> (and no
  message). A tier list with a gap or an overlap beyond the tolerance, or with a finite
  last tier, is answered with one unbounded tier starting at \<open>0\<close>, \<open>isValid = false\<close> and a
  non-empty message; so is a list that comes out of \<^verbatim>\<open>normalizeTiers\<close>, as every list
  the program validates does, with a gap or an overlap of any size.
\<close>

theorem validateTiers_round_trip:
  "(tierSetInvariants ts \<longrightarrow>
      validateTiers ts = \<lparr>TierValidationResult.tiers = ts, isValid = True, message = None\<rparr>)
   \<and> (hasGap ts' \<or> hasOverlap ts' \<or> finiteLastTier ts' \<longrightarrow>
      (\<exists>p m. m \<noteq> [] \<and> validateTiers ts' =
         \<lparr>TierValidationResult.tiers = [\<lparr>lower = 0, upper = None, price = p\<rparr>],
          isValid = False, message = Some m\<rparr>))
   \<and> (hasAnyGapOrOverlap (normalizeTiers raw) \<longrightarrow>
      (\<exists>p m. m \<noteq> [] \<and> validateTiers (normalizeTiers raw) =
         \<lparr>TierValidationResult.tiers = [\<lparr>lower = 0, upper = None, price = p\<rparr>],
          isValid = False, message = Some m\<rparr>))"
proof (intro conjI impI)
  assume "tierSetInvariants ts"
  then have "checkedInvariants ts"
    by (simp add: tierSetInvariants_def checkedInvariants_def exact_within)
  then show "validateTiers ts =
      \<lparr>TierValidationResult.tiers = ts, isValid = True, message = None\<rparr>"
    by (simp add: isValid_iff accepted_shape)
next
  assume "hasGap ts' \<or> hasOverlap ts' \<or> finiteLastTier ts'"
  then have "\<not> checkedInvariants ts'"
    using gap_overlap_not_within [of ts' "Some 0"]
    by (auto simp add: checkedInvariants_def finiteLastTier_def lastUnbounded_def)
  then have "\<not> isValid (validateTiers ts')" by (simp add: isValid_iff)
  from rejected_shape [OF this]
  show "\<exists>p m. m \<noteq> [] \<and> validateTiers ts' =
         \<lparr>TierValidationResult.tiers = [\<lparr>lower = 0, upper = None, price = p\<rparr>],
          isValid = False, message = Some m\<rparr>"
    by blast
next
  assume "hasAnyGapOrOverlap (normalizeTiers raw)"
  then have "\<not> isValid (validateTiers (normalizeTiers raw))"
    by (simp add: isValid_iff normalized_gap_rejected)
  from rejected_shape [OF this]
  show "\<exists>p m. m \<noteq> [] \<and> validateTiers (normalizeTiers raw) =
         \<lparr>TierValidationResult.tiers = [\<lparr>lower = 0, upper = None, price = p\<rparr>],
          isValid = False, message = Some m\<rparr>"
    by blast
qed

theorem validateTiers_round_trip_witness:
  "tierSetInvariants exampleTiers
   \<and> validateTiers exampleTiers =
       \<lparr>TierValidationResult.tiers = exampleTiers, isValid = True, message = None\<rparr>
   \<and> hasGap gapTiers
   \<and> hasAnyGapOrOverlap (normalizeTiers gapTiers)
   \<and> (\<exists>p m. m \<noteq> [] \<and> validateTiers gapTiers =
         \<lparr>TierValidationResult.tiers = [\<lparr>lower = 0, upper = None, price = p\<rparr>],
          isValid = False, message = Some m\<rparr>)
   \<and> (\<exists>p m. m \<noteq> [] \<and> validateTiers (normalizeTiers gapTiers) =
         \<lparr>TierValidationResult.tiers = [\<lparr>lower = 0, upper = None, price = p\<rparr>],
          isValid = False, message = Some m\<rparr>)"
proof -
  have valid: "tierSetInvariants exampleTiers"
    by (simp add: tierSetInvariants_def sortedByLower_def upperExceedsLower_def
          lastUnbounded_def exampleTiers_def)
  have gap: "hasGap gapTiers"
    by (simp add: gapTiers_def)
  have any: "hasAnyGapOrOverlap (normalizeTiers gapTiers)"
    by (simp add: normalize_gapTiers) (simp add: gapTiers_def)
  from valid gap any validateTiers_round_trip [of exampleTiers gapTiers gapTiers]
  show ?thesis by blast
qed

lemma validateLoop_messages:
  "validateLoop eo ts = Some m \<Longrightarrow> m = MSG_CONTIGUOUS \<or> m = MSG_UPPER_GREATER"
  by (induction eo ts rule: validateLoop.induct) (auto split: if_splits)

lemma rejected_message:
  "message (validateTiers ts) = Some m \<Longrightarrow>
   m \<in> {MSG_DEFINE_ONE, MSG_CONTIGUOUS, MSG_UPPER_GREATER, MSG_FINAL_INFINITE}"
  by (auto simp add: validateTiers_def split: if_splits option.splits
        dest: validateLoop_messages)

lemma within_nth:
  "contiguousWithin eo ts \<Longrightarrow> i < length ts \<Longrightarrow>
   (case (if i = 0 then eo else upper (ts ! (i - 1))) of
      None \<Rightarrow> False
    | Some x \<Rightarrow> \<bar>lower (ts ! i) - x\<bar> \<le> 1 / 10 ^ 6)"
proof (induction ts arbitrary: i eo)
  case Nil
  then show ?case by simp
next
  case (Cons t rest)
  show ?case
  proof (cases i)
    case 0
    with Cons.prems show ?thesis by (simp split: option.splits)
  next
    case (Suc j)
    with Cons.prems have "contiguousWithin (upper t) rest" "j < length rest" by simp_all
    from Cons.IH [OF this] Suc show ?thesis
      by (cases j) (simp_all split: option.splits)
  qed
qed

lemma lastUnbounded_nth:
  assumes "lastUnbounded ts" "i < length ts"
  shows "(upper (ts ! i) = None) = (i = length ts - 1)"
proof (cases "i = length ts - 1")
  case True
  from assms(1) have "ts \<noteq> []" "upper (last ts) = None"
    by (simp_all add: lastUnbounded_def)
  with True last_conv_nth [of ts] show ?thesis by simp
next
  case False
  with assms(2) have "i < length (butlast ts)" by simp
  with assms(1) have "upper (butlast ts ! i) \<noteq> None"
    by (simp add: lastUnbounded_def list_all_length)
  with \<open>i < length (butlast ts)\<close> False show ?thesis by (simp add: nth_butlast)
qed

lemma sorted_checked_no_violation:
  assumes "sortedByLower ts" "checkedInvariants ts"
  shows "\<not> violatesInvariant ts"
proof -
  from assms(2) have cw: "contiguousWithin (Some 0) ts" and ul: "upperExceedsLower ts"
    and lu: "lastUnbounded ts" by (simp_all add: checkedInvariants_def)
  have "\<not> offendingAt ts i" if i: "i < length ts" for i
  proof -
    have one: "\<not> (i > 0 \<and> lower (ts ! i) < lower (ts ! (i - 1)))"
    proof
      assume a: "i > 0 \<and> lower (ts ! i) < lower (ts ! (i - 1))"
      from assms(1) i have "map lower ts ! (i - 1) \<le> map lower ts ! i"
        unfolding sortedByLower_def by (intro sorted_nth_mono) simp_all
      with a i show False by simp
    qed
    from within_nth [OF cw i]
    have two: "\<not> (if i = 0 then \<bar>lower (ts ! i) - 0\<bar> > 1 / 10 ^ 6
          else (case upper (ts ! (i - 1)) of
                  None \<Rightarrow> True
                | Some up \<Rightarrow> \<bar>lower (ts ! i) - up\<bar> > 1 / 10 ^ 6))"
      by (auto split: option.splits if_splits)
    from ul i have three: "\<not> (case upper (ts ! i) of None \<Rightarrow> False | Some up \<Rightarrow> up \<le> lower (ts ! i))"
      by (auto simp: upperExceedsLower_def list_all_length split: option.splits)
    note four = lastUnbounded_nth [OF lu i]
    show ?thesis unfolding offendingAt_def
      by (simp only: one two three four simp_thms)
  qed
  moreover from lu have "ts \<noteq> []" by (simp add: lastUnbounded_def)
  ultimately show ?thesis by (auto simp: violatesInvariant_def list_ex_iff)
qed

lemma rejected_full:
  assumes "\<not> checkedInvariants ts"
  shows "\<exists>m. m \<in> {MSG_DEFINE_ONE, MSG_CONTIGUOUS, MSG_UPPER_GREATER, MSG_FINAL_INFINITE}
           \<and> m \<noteq> [] \<and> validateTiers ts = rejection ts m"
proof -
  from assms have "\<not> isValid (validateTiers ts)" by (simp add: isValid_iff)
  from rejected_shape [OF this] obtain m where m: "m \<noteq> []" "validateTiers ts = rejection ts m"
    unfolding rejection_def by blast
  then have "message (validateTiers ts) = Some m" by (simp add: rejection_def)
  from rejected_message [OF this] m show ?thesis by blast
qed

text \<open>
  Claim C4, as amended. Whenever a tier list violates contiguity from \<open>0\<close> (beyond the
  tolerance), has a finite \<open>upper\<close> that does not exceed its \<open>lower\<close>, or does not have exactly
  its last tier unbounded, validation returns \<open>isValid = false\<close>, one of its four failure
  messages, and a fallback of one unbounded tier from \<open>0\<close> whose price is the price of the
  first tier of the list, or zero when the list has no tier. For a list that comes out of
  \<^verbatim>\<open>normalizeTiers\<close>, which is sorted, that is whenever it violates any of the four
  invariants.
\<close>

theorem validateTiers_fallback:
  "(\<not> checkedInvariants ts \<longrightarrow>
      (\<exists>m. m \<in> {MSG_DEFINE_ONE, MSG_CONTIGUOUS, MSG_UPPER_GREATER, MSG_FINAL_INFINITE}
         \<and> m \<noteq> [] \<and> validateTiers ts = rejection ts m))
   \<and> (violatesInvariant (normalizeTiers raw) \<longrightarrow>
      (\<exists>m. m \<in> {MSG_DEFINE_ONE, MSG_CONTIGUOUS, MSG_UPPER_GREATER, MSG_FINAL_INFINITE}
         \<and> m \<noteq> [] \<and> validateTiers (normalizeTiers raw) = rejection (normalizeTiers raw) m))"
proof (intro conjI impI)
  assume "\<not> checkedInvariants ts"
  then show "\<exists>m. m \<in> {MSG_DEFINE_ONE, MSG_CONTIGUOUS, MSG_UPPER_GREATER, MSG_FINAL_INFINITE}
         \<and> m \<noteq> [] \<and> validateTiers ts = rejection ts m"
    by (rule rejected_full)
next
  assume "violatesInvariant (normalizeTiers raw)"
  with sorted_checked_no_violation [OF normalizeTiers_sorted, of raw]
  have "\<not> checkedInvariants (normalizeTiers raw)" by blast
  then show "\<exists>m. m \<in> {MSG_DEFINE_ONE, MSG_CONTIGUOUS, MSG_UPPER_GREATER, MSG_FINAL_INFINITE}
         \<and> m \<noteq> [] \<and> validateTiers (normalizeTiers raw) = rejection (normalizeTiers raw) m"
    by (rule rejected_full)
qed

theorem validateTiers_fallback_witness:
  "\<not> checkedInvariants gapTiers
   \<and> violatesInvariant (normalizeTiers gapTiers)
   \<and> validateTiers gapTiers =
       \<lparr>TierValidationResult.tiers = [\<lparr>lower = 0, upper = None, price = 3.5\<rparr>],
        isValid = False,
        message = Some ''Tiers must be contiguous with no gaps or overlaps.''\<rparr>
   \<and> validateTiers (normalizeTiers gapTiers) =
       \<lparr>TierValidationResult.tiers = [\<lparr>lower = 0, upper = None, price = 3.5\<rparr>],
        isValid = False,
        message = Some ''Tiers must be contiguous with no gaps or overlaps.''\<rparr>"
proof -
  have bad: "\<not> checkedInvariants gapTiers"
    by (simp add: checkedInvariants_def gapTiers_def)
  have viol: "violatesInvariant (normalizeTiers gapTiers)"
    by (simp add: normalize_gapTiers) (simp add: violatesInvariant_def offendingAt_def gapTiers_def)
  from validateTiers_fallback [of gapTiers gapTiers] bad
  obtain m where "validateTiers gapTiers = rejection gapTiers m" by blast
  moreover have "message (validateTiers gapTiers) =
      Some ''Tiers must be contiguous with no gaps or overlaps.''"
    by (simp add: validateTiers_def gapTiers_def MSG_CONTIGUOUS_def)
  ultimately have "validateTiers gapTiers =
       \<lparr>TierValidationResult.tiers = [\<lparr>lower = 0, upper = None, price = 3.5\<rparr>],
        isValid = False,
        message = Some ''Tiers must be contiguous with no gaps or overlaps.''\<rparr>"
    by (simp add: rejection_def gapTiers_def)
  with bad viol show ?thesis by (simp add: normalize_gapTiers)
qed

text \<open>
  The claim as stated fails twice. In \<open>gapTiers\<close>, a list \<^verbatim>\<open>normalizeTiers\<close> leaves as it
  is, the first offending tier is the second one (the gap, price 5), but the fallback
  carries the price of the first tier, 3.5. And \<open>driftTiers\<close>, which has not been
  normalised, is out of ascending order, yet every check passes within the tolerance and
  the list is accepted.
\<close>

theorem validateTiers_fallback_counterexample:
  "violatesInvariant gapTiers
   \<and> firstOffendingPrice gapTiers = 5
   \<and> validateTiers gapTiers =
       \<lparr>TierValidationResult.tiers = [\<lparr>lower = 0, upper = None, price = 3.5\<rparr>],
        isValid = False, message = Some MSG_CONTIGUOUS\<rparr>
   \<and> normalizeTiers gapTiers = gapTiers
   \<and> violatesInvariant driftTiers
   \<and> validateTiers driftTiers =
       \<lparr>TierValidationResult.tiers = driftTiers, isValid = True, message = None\<rparr>"
proof -
  have "violatesInvariant gapTiers"
    by (simp add: violatesInvariant_def offendingAt_def gapTiers_def)
  moreover have "firstOffendingPrice gapTiers = 5"
    by (simp add: firstOffendingPrice_def offendingAt_def gapTiers_def)
  moreover have "validateTiers gapTiers =
       \<lparr>TierValidationResult.tiers = [\<lparr>lower = 0, upper = None, price = 3.5\<rparr>],
        isValid = False, message = Some MSG_CONTIGUOUS\<rparr>"
    by (simp add: validateTiers_def createFallbackTier_def gapTiers_def)
  moreover note normalize_gapTiers
  moreover have "violatesInvariant driftTiers"
    by (simp add: violatesInvariant_def offendingAt_def driftTiers_def)
  moreover have "validateTiers driftTiers =
       \<lparr>TierValidationResult.tiers = driftTiers, isValid = True, message = None\<rparr>"
    by (simp add: validateTiers_def driftTiers_def)
  ultimately show ?thesis by blast
qed

section \<open>Billing calculator\<close>

text \<open>On a contiguous chain of tiers the loop computes the sum of the band charges.\<close>

lemma bandCharge_zero: "u \<le> lower t \<Longrightarrow> bandCharge u t = 0"
  by (auto simp: bandCharge_def split: option.splits)

lemma sum_list_all_zero:
  "(\<And>t. t \<in> set ts \<Longrightarrow> f t = (0::real)) \<Longrightarrow> sum_list (map f ts) = 0"
  by (induction ts) simp_all

lemma bands_zero:
  assumes "contiguousFrom e ts" "upperExceedsLower ts" "u \<le> e"
  shows "sum_list (map (bandCharge u) ts) = 0"
proof -
  have "\<And>t. t \<in> set ts \<Longrightarrow> bandCharge u t = 0"
    using chain_lower_ge [OF assms(1,2)] assms(3) by (intro bandCharge_zero) force
  then show ?thesis by (rule sum_list_all_zero)
qed

lemma chargeLoop_closed:
  "contiguousFrom e ts \<Longrightarrow> upperExceedsLower ts \<Longrightarrow>
   chargeLoop u c ts = c + sum_list (map (bandCharge u) ts)"
proof (induction ts arbitrary: e c)
  case Nil
  then show ?case by simp
next
  case (Cons t rest)
  from Cons.prems have low: "lower t = e" by simp
  from Cons.prems have rest_ok: "upperExceedsLower rest" by (simp add: upperExceedsLower_def)
  show ?case
  proof (cases "u \<le> lower t")
    case True
    with bands_zero [OF Cons.prems, of u] low show ?thesis by simp
  next
    case False
    show ?thesis
    proof (cases "upper t")
      case None
      with Cons.prems have "rest = []" by simp
      with None False show ?thesis by (simp add: bandCharge_def Let_def)
    next
      case (Some up)
      with Cons.prems have chain: "contiguousFrom up rest" and lt: "lower t < up"
        by (simp_all add: upperExceedsLower_def)
      have band: "bandCharge u t = (min u up - lower t) * price t"
        using False lt Some by (simp add: bandCharge_def max_def min_def)
      have span: "min u up - lower t > 0" using False lt by (simp add: min_def)
      show ?thesis
      proof (cases "u \<le> up")
        case True
        from bands_zero [OF chain rest_ok True] band span Some False True show ?thesis
          by (simp add: Let_def)
      next
        case gt: False
        from Cons.IH [OF chain rest_ok, of "c + (min u up - lower t) * price t"]
          band span Some False gt show ?thesis
          by (simp add: Let_def)
      qed
    qed
  qed
qed

lemma bandCharge_continuous: "continuous_on UNIV (\<lambda>u. bandCharge u t)"
  unfolding bandCharge_def
  by (cases "upper t") (simp_all, (intro continuous_intros)+)

lemma bands_continuous: "continuous_on UNIV (\<lambda>u. sum_list (map (bandCharge u) ts))"
proof (induction ts)
  case Nil
  then show ?case by simp
next
  case (Cons t rest)
  from continuous_on_add [OF bandCharge_continuous [of t] Cons.IH]
  show ?case by simp
qed

lemma bandCharge_mono: "0 \<le> price t \<Longrightarrow> u1 \<le> u2 \<Longrightarrow> bandCharge u1 t \<le> bandCharge u2 t"
  unfolding bandCharge_def
  by (intro mult_left_mono) (auto split: option.splits)

lemma bands_mono:
  "list_all (\<lambda>t. 0 \<le> price t) ts \<Longrightarrow> u1 \<le> u2 \<Longrightarrow>
   sum_list (map (bandCharge u1) ts) \<le> sum_list (map (bandCharge u2) ts)"
  by (induction ts) (auto intro: add_mono bandCharge_mono)

lemma bands_progressive:
  "contiguousFrom e ts \<Longrightarrow> upperExceedsLower ts \<Longrightarrow> activeTier ts k u \<Longrightarrow>
   sum_list (map (bandCharge u) ts) = progressiveCharge ts k u"
proof (induction ts arbitrary: e k)
  case Nil
  then show ?case by (simp add: activeTier_def)
next
  case (Cons t rest)
  from Cons.prems have rest_ok: "upperExceedsLower rest" by (simp add: upperExceedsLower_def)
  show ?case
  proof (cases k)
    case 0
    with Cons.prems have inside: "lower t \<le> u" "case upper t of None \<Rightarrow> True | Some up \<Rightarrow> u \<le> up"
      by (simp_all add: activeTier_def)
    then have here: "bandCharge u t = price t * (u - lower t)"
      by (auto simp: bandCharge_def split: option.splits)
    have "sum_list (map (bandCharge u) rest) = 0"
    proof (cases "upper t")
      case None
      with Cons.prems show ?thesis by simp
    next
      case (Some up)
      with Cons.prems inside have "contiguousFrom up rest" "u \<le> up" by simp_all
      from bands_zero [OF this(1) rest_ok this(2)] show ?thesis .
    qed
    with here 0 show ?thesis by (simp add: progressiveCharge_def)
  next
    case (Suc j)
    with Cons.prems have act: "activeTier rest j u" by (simp add: activeTier_def)
    then have mem: "rest ! j \<in> set rest" and lowj: "lower (rest ! j) \<le> u"
      by (simp_all add: activeTier_def)
    then have "rest \<noteq> []" by auto
    with Cons.prems obtain up where up: "upper t = Some up" "contiguousFrom up rest" "lower t < up"
      by (cases "upper t") (auto simp: upperExceedsLower_def)
    from chain_lower_ge [OF up(2) rest_ok mem] lowj have "up \<le> u" by simp
    with up have here: "bandCharge u t = price t * tierWidth t"
      by (simp add: bandCharge_def tierWidth_def)
    from Cons.IH [OF up(2) rest_ok act] here Suc show ?thesis
      by (simp add: progressiveCharge_def)
  qed
qed

lemma charge_closed_form:
  "validTierSet ts \<Longrightarrow> computeVolumetricCharge u ts = sum_list (map (bandCharge u) ts)"
  using chargeLoop_closed [of 0 ts u 0]
  by (simp add: validTierSet_def tierSetInvariants_def computeVolumetricCharge_def)

text \<open>
  With non-negative prices the loop never lowers the charge, on any tier list: every
  addition is non-negative and grows with the usage.
\<close>

lemma chargeLoop_shift: "chargeLoop u c ts = c + chargeLoop u 0 ts"
proof (induction ts arbitrary: c)
  case Nil
  then show ?case by simp
next
  case (Cons t rest)
  have h1: "chargeLoop u (c + x) rest = c + chargeLoop u x rest" for x
    using Cons.IH [of "c + x"] Cons.IH [of x] by simp
  have h0: "chargeLoop u c rest = c + chargeLoop u 0 rest"
    by (rule Cons.IH)
  show ?case using h0 by (simp add: Let_def h1)
qed

lemma chargeLoop_ge:
  "list_all (\<lambda>t. 0 \<le> price t) ts \<Longrightarrow> c \<le> chargeLoop u c ts"
proof (induction ts arbitrary: c)
  case Nil
  then show ?case by simp
next
  case (Cons t rest)
  from Cons.prems have p: "0 \<le> price t" and rest: "list_all (\<lambda>t. 0 \<le> price t) rest"
    by simp_all
  have step: "c \<le> c + x * price t" if "0 < x" for x
    using p that by simp
  have "c \<le> chargeLoop u (c + x * price t) rest" if "0 < x" for x
    using Cons.IH [OF rest, of "c + x * price t"] step [OF that] by simp
  with Cons.IH [OF rest, of c] step show ?case
    by (simp add: Let_def)
qed

lemma chargeLoop_mono:
  "list_all (\<lambda>t. 0 \<le> price t) ts \<Longrightarrow> u1 \<le> u2 \<Longrightarrow>
   chargeLoop u1 0 ts \<le> chargeLoop u2 0 ts"
proof (induction ts)
  case Nil
  then show ?case by simp
next
  case (Cons t rest)
  from Cons.prems have p: "0 \<le> price t" and rest: "list_all (\<lambda>t. 0 \<le> price t) rest"
    by simp_all
  note ih = Cons.IH [OF rest Cons.prems(2)]
  define cap where "cap u = (case upper t of None \<Rightarrow> u | Some up \<Rightarrow> min u up)" for u
  define add where "add u = (if cap u - lower t > 0 then (cap u - lower t) * price t else 0)" for u
  define inside where "inside u = (case upper t of None \<Rightarrow> True | Some up \<Rightarrow> u \<le> up)" for u
  have unfold: "chargeLoop u 0 (t # rest) =
      (if u \<le> lower t then 0 else if inside u then add u else add u + chargeLoop u 0 rest)" for u
    using chargeLoop_shift [of u "add u" rest]
    by (simp add: Let_def cap_def add_def inside_def cong: if_cong)
  have cap_mono: "cap u1 \<le> cap u2"
    using Cons.prems(2) by (auto simp: cap_def split: option.splits)
  have add_nonneg: "0 \<le> add u" for u using p by (simp add: add_def)
  have add_le: "add u1 \<le> add u2"
  proof (cases "cap u1 - lower t > 0")
    case True
    with cap_mono have "cap u2 - lower t > 0" by simp
    with True cap_mono p show ?thesis by (simp add: add_def mult_right_mono)
  next
    case False
    with add_nonneg [of u2] show ?thesis by (simp add: add_def)
  qed
  have rest_nonneg: "0 \<le> chargeLoop u 0 rest" for u
    using chargeLoop_ge [OF rest, of 0 u] by simp
  have inside_mono: "inside u2 \<Longrightarrow> inside u1"
    using Cons.prems(2) by (auto simp: inside_def split: option.splits)
  show ?case
  proof (cases "u1 \<le> lower t")
    case True
    have "0 \<le> chargeLoop u2 0 (t # rest)"
      using chargeLoop_ge [OF Cons.prems(1), of 0 u2] by simp
    with True show ?thesis by (simp add: unfold [of u1])
  next
    case False
    with Cons.prems(2) have u2: "\<not> u2 \<le> lower t" by simp
    show ?thesis
    proof (cases "inside u1")
      case True
      with False u2 add_le add_nonneg rest_nonneg [of u2] show ?thesis
        by (simp add: unfold add_increasing2 del: chargeLoop.simps)
    next
      case out: False
      from out inside_mono have "\<not> inside u2" by blast
      moreover from add_le ih
      have "add u1 + chargeLoop u1 0 rest \<le> add u2 + chargeLoop u2 0 rest"
        by (rule add_mono)
      ultimately show ?thesis using out False u2
        by (simp add: unfold del: chargeLoop.simps)
    qed
  qed
qed

lemma charge_mono_nonneg_prices:
  "list_all (\<lambda>t. 0 \<le> price t) ts \<Longrightarrow> u1 \<le> u2 \<Longrightarrow>
   computeVolumetricCharge u1 ts \<le> computeVolumetricCharge u2 ts"
  by (simp add: computeVolumetricCharge_def chargeLoop_mono)

text \<open>On the overlapping tiers the charge jumps at the upper bound of the first tier.\<close>

lemma overlap_charge_above:
  "5 < u \<Longrightarrow> computeVolumetricCharge u overlapTiers = 17.5 + 5 * (u - (5 - 5 / 10 ^ 7))"
  by (simp add: computeVolumetricCharge_def overlapTiers_def Let_def)

lemma overlap_charge_at: "computeVolumetricCharge 5 overlapTiers = 17.5"
  by (simp add: computeVolumetricCharge_def overlapTiers_def Let_def)

lemma overlap_discontinuous: "\<not> continuous_on UNIV (chargeCurve overlapTiers)"
proof
  assume "continuous_on UNIV (chargeCurve overlapTiers)"
  then have "isCont (chargeCurve overlapTiers) 5"
    by (simp add: continuous_on_eq_continuous_at)
  then have lim: "chargeCurve overlapTiers \<midarrow>5\<rightarrow> chargeCurve overlapTiers 5"
    by (simp add: isCont_def)
  have "(0::real) < 1 / 10 ^ 6" by simp
  with lim obtain s where s: "0 < s"
    and close: "\<And>x. x \<noteq> 5 \<and> norm (x - 5) < s \<Longrightarrow>
                 norm (chargeCurve overlapTiers x - chargeCurve overlapTiers 5) < 1 / 10 ^ 6"
    unfolding LIM_eq by blast
  have "5 + s / 2 \<noteq> 5 \<and> norm ((5 + s / 2) - 5) < s" using s by simp
  from close [OF this]
  have "norm (chargeCurve overlapTiers (5 + s / 2) - chargeCurve overlapTiers 5) < 1 / 10 ^ 6" .
  moreover have "chargeCurve overlapTiers (5 + s / 2) - chargeCurve overlapTiers 5
                   = 5 * (s / 2 + 5 / 10 ^ 7)"
    using s overlap_charge_above [of "5 + s / 2"]
    by (simp add: chargeCurve_def overlap_charge_at)
  ultimately show False using s by simp
qed

lemma normalize_exampleTiers: "normalizeTiers exampleTiers = exampleTiers"
  by (simp add: normalizeTiers_def normalizeTier_def roundTo_def exampleTiers_def)

text \<open>
  Claim C2 (billing continuity), as amended. For every valid Tier Set, the tolerance of
  contiguity included, the volumetric charge is monotonically non-decreasing in the usage.
  For every valid Tier Set whose tiers are exactly contiguous, each \<open>lower\<close> equal to the
  previous \<open>upper\<close>, it is moreover continuous in the usage, and at a usage in tier \<open>k\<close> it
  is the sum of price times width over the tiers below \<open>k\<close> plus the price of tier \<open>k\<close>
  times the usage in excess of its lower bound. Every list that \<^verbatim>\<open>validateTiers\<close> accepts
  after \<^verbatim>\<open>normalizeTiers\<close> is exactly contiguous.
\<close>

theorem volumetric_charge_continuous_monotone:
  "(tolerantTierSet ts' \<longrightarrow>
      (\<forall>u1 u2. u1 \<le> u2 \<longrightarrow>
         computeVolumetricCharge u1 ts' \<le> computeVolumetricCharge u2 ts'))
   \<and> (validTierSet ts \<longrightarrow>
      continuous_on UNIV (\<lambda>u. computeVolumetricCharge u ts)
      \<and> (\<forall>u1 u2. u1 \<le> u2 \<longrightarrow>
           computeVolumetricCharge u1 ts \<le> computeVolumetricCharge u2 ts)
      \<and> (\<forall>k u. activeTier ts k u \<longrightarrow>
           computeVolumetricCharge u ts = progressiveCharge ts k u))
   \<and> (isValid (validateTiers (normalizeTiers raw)) \<longrightarrow> validTierSet (normalizeTiers raw))"
proof (intro conjI impI allI)
  fix u1 u2 :: real
  assume "tolerantTierSet ts'" and "u1 \<le> u2"
  moreover from \<open>tolerantTierSet ts'\<close> have "list_all (\<lambda>t. 0 \<le> price t) ts'"
    by (simp add: tolerantTierSet_def list_all_iff)
  ultimately show "computeVolumetricCharge u1 ts' \<le> computeVolumetricCharge u2 ts'"
    by (simp add: charge_mono_nonneg_prices)
next
  assume valid: "validTierSet ts"
  show "continuous_on UNIV (\<lambda>u. computeVolumetricCharge u ts)"
    using bands_continuous [of ts] by (simp add: charge_closed_form [OF valid])
next
  fix u1 u2 :: real
  assume valid: "validTierSet ts" and "u1 \<le> u2"
  moreover from valid have "list_all (\<lambda>t. 0 \<le> price t) ts"
    by (simp add: validTierSet_def list_all_iff)
  ultimately show "computeVolumetricCharge u1 ts \<le> computeVolumetricCharge u2 ts"
    by (simp add: charge_mono_nonneg_prices)
next
  fix k u
  assume valid: "validTierSet ts" and "activeTier ts k u"
  with bands_progressive [of 0 ts k u]
  show "computeVolumetricCharge u ts = progressiveCharge ts k u"
    by (simp add: charge_closed_form [OF valid] validTierSet_def tierSetInvariants_def)
next
  assume "isValid (validateTiers (normalizeTiers raw))"
  then show "validTierSet (normalizeTiers raw)"
    by (rule validated_tier_set_valid)
qed

theorem volumetric_charge_continuous_monotone_witness:
  "tolerantTierSet overlapTiers
   \<and> computeVolumetricCharge 5 overlapTiers \<le> computeVolumetricCharge 6 overlapTiers
   \<and> validTierSet exampleTiers
   \<and> continuous_on UNIV (\<lambda>u. computeVolumetricCharge u exampleTiers)
   \<and> computeVolumetricCharge 3 exampleTiers \<le> computeVolumetricCharge 12 exampleTiers
   \<and> activeTier exampleTiers 2 12
   \<and> computeVolumetricCharge 12 exampleTiers = 48.75
   \<and> isValid (validateTiers (normalizeTiers exampleTiers))
   \<and> validTierSet (normalizeTiers exampleTiers)"
proof -
  have tol: "tolerantTierSet overlapTiers"
    by (simp add: tolerantTierSet_def violatesInvariant_def offendingAt_def overlapTiers_def)
  have valid: "validTierSet exampleTiers"
    by (simp add: validTierSet_def tierSetInvariants_def sortedByLower_def
          upperExceedsLower_def lastUnbounded_def exampleTiers_def)
  have active: "activeTier exampleTiers 2 12"
    by (simp add: activeTier_def exampleTiers_def)
  have amount: "progressiveCharge exampleTiers 2 12 = 48.75"
    by (simp add: progressiveCharge_def tierWidth_def exampleTiers_def)
  have accepted: "isValid (validateTiers (normalizeTiers exampleTiers))"
    by (simp add: normalize_exampleTiers) (simp add: validateTiers_def exampleTiers_def)
  have order: "(3::real) \<le> 12" "(5::real) \<le> 6" by simp_all
  from volumetric_charge_continuous_monotone [of overlapTiers exampleTiers exampleTiers]
    tol valid active amount accepted order
  show ?thesis by metis
qed

text \<open>
  The claim as stated, for every valid Tier Set, fails on \<open>overlapTiers\<close>: no tier of it
  offends and \<^verbatim>\<open>validateTiers\<close> accepts it, yet the charge is not continuous (it jumps by
  \<open>2.5 \<times> 10^-6\<close> at 5), and at usage 5, which lies in the second tier, the charge is 17.5
  and not the closed form 17.5000025.
\<close>

theorem volumetric_charge_counterexample:
  "tolerantTierSet overlapTiers
   \<and> validateTiers overlapTiers =
       \<lparr>TierValidationResult.tiers = overlapTiers, isValid = True, message = None\<rparr>
   \<and> \<not> continuous_on UNIV (chargeCurve overlapTiers)
   \<and> activeTier overlapTiers 1 5
   \<and> computeVolumetricCharge 5 overlapTiers = 17.5
   \<and> progressiveCharge overlapTiers 1 5 = 17.5000025"
proof -
  have "tolerantTierSet overlapTiers"
    by (simp add: tolerantTierSet_def violatesInvariant_def offendingAt_def overlapTiers_def)
  moreover have "validateTiers overlapTiers =
       \<lparr>TierValidationResult.tiers = overlapTiers, isValid = True, message = None\<rparr>"
    by (simp add: validateTiers_def overlapTiers_def)
  moreover have "activeTier overlapTiers 1 5"
    by (simp add: activeTier_def overlapTiers_def)
  moreover have "progressiveCharge overlapTiers 1 5 = 17.5000025"
    by (simp add: progressiveCharge_def tierWidth_def overlapTiers_def)
  ultimately show ?thesis
    using overlap_discontinuous overlap_charge_at by blast
qed

section \<open>Perceived price\<close>

text \<open>
  Claim C5. For every usage, tier list, base fee, \<open>alpha\<close> and bill salience the perceived
  price is \<open>alpha\<close> times the marginal price plus \<open>1 - alpha\<close> times the average price plus
  the bill salience times the base fee divided by \<open>max(usage, MIN_USAGE)\<close>; when \<open>alpha\<close> is
  omitted it is \<open>0.7\<close>.
\<close>

theorem perceived_price_formula:
  "computePerceivedPrice u ts fee (Some alpha) (Some s) =
     alpha * computeMarginalPrice u ts + (1 - alpha) * computeAveragePrice u ts
       + s * (fee / max u MIN_USAGE)
   \<and> computePerceivedPrice u ts fee None (Some s) =
     0.7 * computeMarginalPrice u ts + (1 - 0.7) * computeAveragePrice u ts
       + s * (fee / max u MIN_USAGE)"
  by (simp add: computePerceivedPrice_def Let_def DEFAULT_ALPHA_def)

text \<open>
  The two-argument function of the second copy is the instance \<open>alpha = 0.5\<close> without the
  base-fee term.
\<close>

lemma legacy_perceived_price:
  "computePerceivedPrice_legacy u ts = computePerceivedPrice u ts fee (Some 0.5) (Some 0)"
  by (simp add: computePerceivedPrice_legacy_def computePerceivedPrice_def Let_def
        algebra_simps)

section \<open>Equilibrium solver\<close>

lemma clampUsage_idem: "clampUsage (clampUsage v) = clampUsage v"
  by (simp add: clampUsage_def MIN_USAGE_def MAX_USAGE_def)

text \<open>Both prices are at least \<open>MIN_PRICE\<close>, so their quotient to the power \<open>0\<close> is \<open>1\<close>.\<close>

lemma price_ratio_powr_zero: "(max MIN_PRICE x / max MIN_PRICE p) powr 0 = 1"
proof -
  have "0 < max MIN_PRICE x" "0 < max MIN_PRICE p"
    by (simp_all add: MIN_PRICE_def max_def)
  then have "max MIN_PRICE x \<noteq> 0" "max MIN_PRICE p \<noteq> 0" by simp_all
  then show ?thesis by simp
qed

lemma solveLoop_zero_elasticity:
  "solveLoop n 0 ts (clampUsage q) (max MIN_PRICE p) fee s (clampUsage q) = clampUsage q"
  by (cases n)
     (simp_all add: Let_def clampUsage_idem price_ratio_powr_zero del: powr_zero_eq_one)

lemma solveLoop_legacy_zero_elasticity:
  "solveLoop_legacy n 0 ts (clampUsage q) (max MIN_PRICE p) (clampUsage q) = clampUsage q"
  by (cases n)
     (simp_all add: Let_def clampUsage_idem price_ratio_powr_zero del: powr_zero_eq_one)

lemma solveUsage_zero_elasticity:
  "usage (solveUsage 0 ts q p fee s) = clampUsage q"
  by (simp add: solveUsage_def Let_def solveLoop_zero_elasticity)

lemma solveUsage_legacy_zero_elasticity:
  "usage (solveUsage_legacy 0 ts q p) = clampUsage q"
  by (simp add: solveUsage_legacy_def Let_def solveLoop_legacy_zero_elasticity)

text \<open>
  Claim C1 (zero-elasticity identity), as amended. With \<open>elasticity = 0\<close> the solver
  returns the baseline usage clamped to \<open>[MIN_USAGE, MAX_USAGE]\<close>, whatever the tiers, the
  base fee, the bill salience and the baseline price are; this is the baseline usage
  itself whenever that lies between \<open>MIN_USAGE\<close> and \<open>MAX_USAGE\<close>. The four-argument
  solver of the second copy returns the clamped baseline usage as well.
\<close>

theorem zero_elasticity_identity:
  "usage (solveUsage 0 ts q p fee s) = clampUsage q
   \<and> (MIN_USAGE \<le> q \<and> q \<le> MAX_USAGE \<longrightarrow> usage (solveUsage 0 ts q p fee s) = q)
   \<and> usage (solveUsage_legacy 0 ts q p) = clampUsage q"
  by (auto simp add: solveUsage_zero_elasticity solveUsage_legacy_zero_elasticity
        clampUsage_def)

theorem zero_elasticity_identity_witness:
  "MIN_USAGE \<le> 7 \<and> 7 \<le> MAX_USAGE
   \<and> usage (solveUsage 0 exampleTiers 7 4.16 25 0.05) = 7"
proof -
  have h: "MIN_USAGE \<le> 7 \<and> 7 \<le> MAX_USAGE"
    by (simp add: MIN_USAGE_def MAX_USAGE_def)
  with zero_elasticity_identity [of exampleTiers 7 "4.16" 25 "0.05"] show ?thesis by blast
qed

text \<open>
  The claim as stated, for every baseline usage, fails above \<open>MAX_USAGE\<close>: a baseline
  usage of 100 is answered with 60.
\<close>

theorem zero_elasticity_counterexample:
  "usage (solveUsage 0 exampleTiers 100 4.16 25 0.05) = 60
   \<and> usage (solveUsage 0 exampleTiers 100 4.16 25 0.05) \<noteq> 100"
  by (simp add: solveUsage_zero_elasticity clampUsage_def MIN_USAGE_def MAX_USAGE_def)

section \<open>Single-point demand\<close>

text \<open>
  Claim C8. For every input, \<^verbatim>\<open>calculateDemand\<close> reports \<open>usageP5\<close> and \<open>usageP95\<close> both equal
  to its point estimate \<open>perConnectionUsage\<close>.
\<close>

theorem single_point_percentiles_degenerate:
  "usageP5 (trace (calculateDemand inputs)) =
     Some (perConnectionUsage (trace (calculateDemand inputs)))
   \<and> usageP95 (trace (calculateDemand inputs)) =
     Some (perConnectionUsage (trace (calculateDemand inputs)))"
  by (simp add: calculateDemand_def Let_def)

section \<open>Monte Carlo engine\<close>

lemma clampElasticity_range:
  "- 0.4 \<le> clampElasticity v \<and> clampElasticity v \<le> - 0.05 \<and> clampElasticity v < 0"
  by (simp add: clampElasticity_def ELASTICITY_MIN_def ELASTICITY_MAX_def)

text \<open>The log of the sampling loop: one call per index, in order.\<close>

lemma solverCalls_foldl:
  "solverCalls (foldl (sampleStep params bu) s js) =
     solverCalls s @
     map (\<lambda>i. \<lparr>argElasticity =
                  clampElasticity (elasticityMean params + ELASTICITY_STD * eps (draws params) ! i),
                argTiers = tiers params,
                argBaselineUsage = bu ! i,
                argBaselinePrice = BaselineAnchor.perceivedPrice (anchor params),
                argBaseFee = baseFee params,
                argBillSalience = billSalience params\<rparr>) js"
  by (induction js arbitrary: s) (simp_all add: sampleStep_def Let_def)

lemma sampleStep_connections:
  "sampleStep (params\<lparr>connections := c\<rparr>) = sampleStep params"
  by (auto simp add: sampleStep_def fun_eq_iff)

lemma logged_calls:
  "snd (runMonteCarloLogged params) =
     map (\<lambda>i. \<lparr>argElasticity =
                  clampElasticity (elasticityMean params + ELASTICITY_STD * eps (draws params) ! i),
                argTiers = tiers params,
                argBaselineUsage =
                  buildUsageDraws (BaselineAnchor.usage (anchor params)) (usageVar params)
                    (q0 (draws params)) ! i,
                argBaselinePrice = BaselineAnchor.perceivedPrice (anchor params),
                argBaseFee = baseFee params,
                argBillSalience = billSalience params\<rparr>)
       [0..<min (length (q0 (draws params))) (length (eps (draws params)))]"
  by (simp add: runMonteCarloLogged_def Let_def sampleLoop_def solverCalls_foldl)

text \<open>
  Claim C9. Every elasticity that \<^verbatim>\<open>runMonteCarloSimulation\<close> passes to the solver lies in
  \<open>[-0.4, -0.05]\<close> and is therefore strictly negative, whatever the mean elasticity is.
\<close>

theorem monte_carlo_elasticity_clamped:
  "\<forall>c \<in> set (snd (runMonteCarloLogged params)).
     - 0.4 \<le> argElasticity c \<and> argElasticity c \<le> - 0.05 \<and> argElasticity c < 0"
proof
  fix c assume "c \<in> set (snd (runMonteCarloLogged params))"
  then obtain v where "argElasticity c = clampElasticity v"
    by (auto simp add: runMonteCarloLogged_def Let_def sampleLoop_def solverCalls_foldl
          split: if_splits)
  then show "- 0.4 \<le> argElasticity c \<and> argElasticity c \<le> - 0.05 \<and> argElasticity c < 0"
    using clampElasticity_range [of v] by simp
qed

theorem monte_carlo_elasticity_clamped_witness:
  "0 \<le> elasticityMean oneSampleParams
   \<and> map argElasticity (snd (runMonteCarloLogged oneSampleParams)) = [- 0.05]
   \<and> - 0.4 \<le> argElasticity (hd (snd (runMonteCarloLogged oneSampleParams)))
   \<and> argElasticity (hd (snd (runMonteCarloLogged oneSampleParams))) \<le> - 0.05
   \<and> argElasticity (hd (snd (runMonteCarloLogged oneSampleParams))) < 0"
proof -
  have calls: "map argElasticity (snd (runMonteCarloLogged oneSampleParams)) = [- 0.05]"
    by (simp add: logged_calls oneSampleParams_def clampElasticity_def ELASTICITY_STD_def
          ELASTICITY_MIN_def ELASTICITY_MAX_def)
  then have "snd (runMonteCarloLogged oneSampleParams) \<noteq> []"
    by auto
  then have "hd (snd (runMonteCarloLogged oneSampleParams))
               \<in> set (snd (runMonteCarloLogged oneSampleParams))"
    by simp
  with monte_carlo_elasticity_clamped [of oneSampleParams]
  have "- 0.4 \<le> argElasticity (hd (snd (runMonteCarloLogged oneSampleParams)))
        \<and> argElasticity (hd (snd (runMonteCarloLogged oneSampleParams))) \<le> - 0.05
        \<and> argElasticity (hd (snd (runMonteCarloLogged oneSampleParams))) < 0"
    by blast
  moreover have "0 \<le> elasticityMean oneSampleParams"
    by (simp add: oneSampleParams_def)
  ultimately show ?thesis
    using calls by blast
qed

text \<open>
  Claim C10. When at least one of the two draw arrays is empty, the simulation returns
  zero usage, zero revenue, a zero volumetric bill, the base fee as bill per connection and
  the single warning "Baseline has not been established yet.", and makes no solver call.
\<close>

theorem monte_carlo_empty_draws:
  "q0 (draws params) = [] \<or> eps (draws params) = [] \<Longrightarrow>
   runMonteCarloSimulation params =
     \<lparr>usageMG = 0, revenue = 0, volumetricBillPerConnection = 0,
      trace =
        \<lparr>perConnectionUsage = 0, usageP5 = Some 0, usageP95 = Some 0,
         DemandTrace.marginalPrice = 0, DemandTrace.averagePrice = 0,
         DemandTrace.perceivedPrice = 0, billPerConnection = baseFee params\<rparr>,
      warnings = [''Baseline has not been established yet.''],
      DemandResult.validationMessage = validationMessage params,
      tiersUsed = tiers params\<rparr>
   \<and> snd (runMonteCarloLogged params) = []"
  by (auto simp add: runMonteCarloSimulation_def runMonteCarloLogged_def Let_def
        MSG_NO_BASELINE_def)

theorem monte_carlo_empty_draws_witness:
  "q0 (draws noBaselineParams) = []
   \<and> runMonteCarloSimulation noBaselineParams =
     \<lparr>usageMG = 0, revenue = 0, volumetricBillPerConnection = 0,
      trace =
        \<lparr>perConnectionUsage = 0, usageP5 = Some 0, usageP95 = Some 0,
         DemandTrace.marginalPrice = 0, DemandTrace.averagePrice = 0,
         DemandTrace.perceivedPrice = 0, billPerConnection = 25\<rparr>,
      warnings = [''Baseline has not been established yet.''],
      DemandResult.validationMessage = None,
      tiersUsed = exampleTiers\<rparr>
   \<and> snd (runMonteCarloLogged noBaselineParams) = []"
proof -
  have h: "q0 (draws noBaselineParams) = []"
    by (simp add: noBaselineParams_def)
  then have "q0 (draws noBaselineParams) = [] \<or> eps (draws noBaselineParams) = []" ..
  from monte_carlo_empty_draws [OF this] h show ?thesis
    by (simp add: noBaselineParams_def oneSampleParams_def)
qed

text \<open>
  Claim C6. Doubling \<open>connections\<close>, with everything else unchanged, doubles \<open>usageMG\<close> and
  \<open>revenue\<close>. (This holds for empty draw arrays too, where both are zero.)
\<close>

theorem monte_carlo_scale_invariance:
  "usageMG (runMonteCarloSimulation (params\<lparr>connections := 2 * connections params\<rparr>))
     = 2 * usageMG (runMonteCarloSimulation params)
   \<and> revenue (runMonteCarloSimulation (params\<lparr>connections := 2 * connections params\<rparr>))
     = 2 * revenue (runMonteCarloSimulation params)"
  by (simp add: runMonteCarloSimulation_def runMonteCarloLogged_def Let_def sampleLoop_def
        sampleStep_connections)

section \<open>Decile impacts\<close>

lemma foldl_add_sum_list:
  "foldl (\<lambda>acc idx. acc + g idx) a xs = a + sum_list (map g xs)" for a :: real
  by (induction xs arbitrary: a) simp_all

lemma inner_loop:
  "foldl (\<lambda>acc idx. acc + (q1s ! (ind ! idx) - q0s ! (ind ! idx))) 0 xs
     = sum_list (map (\<lambda>idx. q1s ! (ind ! idx) - q0s ! (ind ! idx)) xs)"
  for q0s q1s :: "real list"
  using foldl_add_sum_list [of "\<lambda>idx. q1s ! (ind ! idx) - q0s ! (ind ! idx)" 0 xs] by simp

lemma decile_foldl:
  "foldl (decileStep q0s q1s ind n w) st ds =
     (fst st @ map (\<lambda>d. \<lparr>decile = decileLabel d,
                          deltaMG = sum_list (map (\<lambda>idx. q1s ! (ind ! idx) - q0s ! (ind ! idx))
                                       [(d * n) div 10 ..< ((d + 1) * n) div 10]) * w,
                          pctOfTotal = 0\<rparr>) ds,
      snd st + sum_list (map (\<lambda>d. sum_list (map (\<lambda>idx. q1s ! (ind ! idx) - q0s ! (ind ! idx))
                                       [(d * n) div 10 ..< ((d + 1) * n) div 10]) * w) ds))"
  by (induction ds arbitrary: st)
     (simp_all add: decileStep_def Let_def inner_loop add.assoc)

lemma telescope:
  fixes h :: "nat \<Rightarrow> real"
  assumes "\<And>d. b d \<le> b (Suc d)"
  shows "sum_list (map (\<lambda>d. sum_list (map h [b d ..< b (Suc d)])) [0..<k])
           = sum_list (map h [b 0 ..< b k])"
proof (induction k)
  case 0
  then show ?case by simp
next
  case (Suc k)
  have "b 0 \<le> b k" by (induction k) (auto intro: order_trans [OF _ assms])
  then have "[b 0 ..< b (Suc k)] = [b 0 ..< b k] @ [b k ..< b (Suc k)]"
    using assms [of k] by (metis le_Suc_ex upt_add_eq_append)
  with Suc show ?case by simp
qed

lemma sum_sorted_indices:
  "sum_list (map g (sort_key f [0..<n])) = sum_list (map g [0..<n])" for g :: "nat \<Rightarrow> real"
proof -
  have "sum_list (map g (sort_key f [0..<n])) = sum g (set (sort_key f [0..<n]))"
    by (rule sum_list_distinct_conv_sum_set) simp
  also have "\<dots> = sum g (set [0..<n])" by simp
  also have "\<dots> = sum_list (map g [0..<n])"
    by (rule sum_list_distinct_conv_sum_set [symmetric]) simp
  finally show ?thesis .
qed

lemma sum_via_indices:
  fixes g :: "nat \<Rightarrow> real"
  assumes "length ind = n"
  shows "sum_list (map (\<lambda>idx. g (ind ! idx)) [0..<n]) = sum_list (map g ind)"
proof -
  from assms have "map (\<lambda>idx. g (ind ! idx)) [0..<n] = map g ind"
    by (intro nth_equalityI) simp_all
  then show ?thesis by simp
qed

lemma map2_by_index:
  "length xs = length ys \<Longrightarrow>
   map2 (\<lambda>before after. after - before) xs ys = map (\<lambda>i. ys ! i - xs ! i) [0..<length xs]"
  for xs ys :: "real list"
  by (intro nth_equalityI) simp_all

lemma decile_sum:
  assumes len: "length q0s = length q1s" and n: "n = length q0s"
  shows "sum_list (map (\<lambda>d. sum_list (map (\<lambda>idx. q1s ! (sort_key (\<lambda>a. q0s ! a) [0..<n] ! idx)
                                              - q0s ! (sort_key (\<lambda>a. q0s ! a) [0..<n] ! idx))
                                       [(d * n) div 10 ..< ((d + 1) * n) div 10]) * w) [0..<10])
         = w * totalUsageDelta q0s q1s"
proof -
  let ?ind = "sort_key (\<lambda>a. q0s ! a) [0..<n]"
  let ?g = "\<lambda>i. q1s ! i - q0s ! i"
  let ?h = "\<lambda>idx. ?g (?ind ! idx)"
  let ?b = "\<lambda>d. (d * n) div 10"
  have mono: "\<And>d. ?b d \<le> ?b (Suc d)" by (simp add: div_le_mono)
  have "sum_list (map (\<lambda>d. sum_list (map ?h [?b d ..< ?b (Suc d)]) * w) [0..<10])
          = sum_list (map (\<lambda>d. sum_list (map ?h [?b d ..< ?b (Suc d)])) [0..<10]) * w"
    by (simp add: sum_list_mult_const)
  also have "\<dots> = sum_list (map ?h [?b 0 ..< ?b 10]) * w"
    using telescope [of ?b ?h 10, OF mono] by simp
  also have "\<dots> = sum_list (map ?h [0 ..< n]) * w" by simp
  also have "\<dots> = sum_list (map ?g ?ind) * w"
    using sum_via_indices [of ?ind n ?g] by simp
  also have "\<dots> = sum_list (map ?g [0..<n]) * w"
    by (simp only: sum_sorted_indices)
  also have "\<dots> = totalUsageDelta q0s q1s * w"
    using len n by (simp add: totalUsageDelta_def map2_by_index)
  finally show ?thesis by (simp add: mult.commute)
qed

text \<open>
  Claim C7 (decile-impact conservation). For two usage arrays of equal length and a
  positive number of connections, \<^verbatim>\<open>computeDecileImpacts\<close> returns ten records whose \<open>deltaMG\<close>
  values add up to \<open>connections / sampleCount / 1000\<close> times the total usage delta. (Over
  the reals the equality is exact.)
\<close>

theorem decile_impact_conservation:
  assumes "length q0s = length q1s" and "0 < conns"
  shows "length (computeDecileImpacts q0s q1s conns) = 10
    \<and> sum_list (map deltaMG (computeDecileImpacts q0s q1s conns))
        = conns / real (length q0s) / 1000 * totalUsageDelta q0s q1s"
proof (cases "length q0s = 0")
  case True
  with assms show ?thesis
    by (simp add: computeDecileImpacts_def totalUsageDelta_def o_def)
next
  case False
  with assms have branch: "\<not> (min (length q0s) (length q1s) = 0 \<or> conns = 0)"
    and n: "min (length q0s) (length q1s) = length q0s"
    by auto
  have keep: "\<And>f xs. map deltaMG (map (\<lambda>impact. impact\<lparr>pctOfTotal := f impact\<rparr>) xs) = map deltaMG xs"
    by (simp add: o_def)
  show ?thesis
    using branch decile_sum [OF assms(1) refl, of "conns / real (length q0s) / 1000"]
    by (simp add: computeDecileImpacts_def Let_def n decile_foldl keep o_def)
qed

theorem decile_impact_conservation_witness:
  "length [1, 2 :: real] = length [2, 4 :: real] \<and> (0::real) < 1000
   \<and> length (computeDecileImpacts [1, 2] [2, 4] 1000) = 10
   \<and> sum_list (map deltaMG (computeDecileImpacts [1, 2] [2, 4] 1000)) = 3 / 2"
proof -
  have len: "length [1, 2 :: real] = length [2, 4 :: real]" by simp
  have pos: "(0::real) < 1000" by simp
  from decile_impact_conservation [OF len pos] len pos show ?thesis
    by (simp add: totalUsageDelta_def)
qed

end
